theory Spec2Isabelle
  imports Main "HOL-Library.Word"
begin

section \<open>The statement and result controller of RMariaDB (src/MariaResult.cpp)\<close>

text \<open>
  \<^verbatim>\<open>MariaResult\<close> drives one prepared statement of the MariaDB client library: it prepares
  the SQL text, binds the rows of a parameter table, executes, and fetches the result row
  by row into a growing data frame. Every method of the C++ class is a function from the
  object's state to an outcome and the state it leaves: an exception leaves the fields it
  had already written, so the state is returned beside the error.

  The client library and the server are the environment. A statement handle carries the
  replies the server will give (to the prepare call and to the k-th execute call), so that
  a method's behaviour is a function of the handle it is given.
\<close>

subsection \<open>Values, errors and the client library\<close>

text \<open>A cell of a row or of a parameter table; \<open>None\<close> is SQL NULL.\<close>

type_synonym cell = "string option"

text \<open>
  What the C++ can raise. \<open>Stop\<close> is Rcpp's \<^verbatim>\<open>stop(msg)\<close>; \<open>Interrupted\<close> is what
  \<^verbatim>\<open>checkUserInterrupt()\<close> raises. \<open>NullHandle\<close> and \<open>SignedOverflow\<close> stand for the two
  places where the C++ has no defined behaviour: a library call on a NULL statement handle,
  and \<^verbatim>\<open>n *= 2\<close> beyond \<^verbatim>\<open>INT_MAX\<close>.
\<close>

datatype error = Stop string | Interrupted | NullHandle | SignedOverflow

text \<open>One entry of a stored result set: what the next \<^verbatim>\<open>mysql_stmt_fetch\<close> will meet.\<close>

datatype fetch_event =
    RowReady "cell list"
  | RowTruncated "cell list"
  | FetchFailed string "32 word"

datatype exec_reply =
    ExecFailed string "32 word"
  | ExecDone "64 word" "fetch_event list"

record mysql_field =
  field_name :: string
  field_type :: int
  charsetnr :: nat

datatype prepare_reply =
    PrepareFailed string "32 word"
  | Prepared nat "mysql_field list option"

text \<open>
  The client library is not part of the repository. Its calls are modelled after the
  interface the spec gives for it: prepare yields the parameter count and the result
  metadata, or none; execute yields the affected-row count and a result set, or fails;
  fetching one row yields a row, a truncated row, the end of the data or an error; a
  failing call leaves the server's message and code in the handle.
\<close>

text \<open>
  The statement handle (\<^verbatim>\<open>MYSQL_STMT\<close>). \<open>on_prepare\<close> and \<open>on_execute\<close> are the server
  behind it: the reply to preparing a text, and the reply to the k-th execution (its
  affected-row count and its result set, or its error). \<open>n_exec\<close> and \<open>n_fetch\<close> count
  the calls of \<^verbatim>\<open>mysql_stmt_execute\<close> and \<^verbatim>\<open>mysql_stmt_fetch\<close> made so far.
\<close>

record mysql_stmt =
  on_prepare :: "string \<Rightarrow> prepare_reply"
  on_execute :: "nat \<Rightarrow> exec_reply"
  param_count :: nat
  result_metadata :: "mysql_field list option"
  n_exec :: nat
  affected_rows :: "64 word"
  pending :: "fetch_event list"
  buffers :: "cell list"
  stmt_error :: string
  stmt_errno :: "32 word"
  n_fetch :: nat

text \<open>The two return codes of \<^verbatim>\<open>mysql_stmt_fetch\<close> that \<^verbatim>\<open>mysql.h\<close> names.\<close>

definition MYSQL_NO_DATA :: int where
  "MYSQL_NO_DATA = 100"

definition MYSQL_DATA_TRUNCATED :: int where
  "MYSQL_DATA_TRUNCATED = 101"

text \<open>R's missing integer, \<^verbatim>\<open>INT_MIN\<close>.\<close>

definition NA_INTEGER :: int where
  "NA_INTEGER = - 2147483648"

definition INT_MAX :: int where
  "INT_MAX = 2147483647"

definition mysql_stmt_prepare :: "mysql_stmt \<Rightarrow> string \<Rightarrow> int \<times> mysql_stmt" where
  "mysql_stmt_prepare h sql =
     (case on_prepare h sql of
        PrepareFailed msg code \<Rightarrow> (1, h\<lparr>stmt_error := msg, stmt_errno := code\<rparr>)
      | Prepared n md \<Rightarrow> (0, h\<lparr>param_count := n, result_metadata := md\<rparr>))"

definition mysql_stmt_param_count :: "mysql_stmt \<Rightarrow> nat" where
  "mysql_stmt_param_count h = param_count h"

definition mysql_stmt_result_metadata :: "mysql_stmt \<Rightarrow> mysql_field list option" where
  "mysql_stmt_result_metadata h = result_metadata h"

definition mysql_stmt_execute :: "mysql_stmt \<Rightarrow> int \<times> mysql_stmt" where
  "mysql_stmt_execute h =
     (case on_execute h (n_exec h) of
        ExecFailed msg code \<Rightarrow>
          (1, h\<lparr>n_exec := n_exec h + 1, pending := [], stmt_error := msg, stmt_errno := code\<rparr>)
      | ExecDone affected rows \<Rightarrow>
          (0, h\<lparr>n_exec := n_exec h + 1, affected_rows := affected, pending := rows\<rparr>))"

text \<open>
  \<^verbatim>\<open>mysql_stmt_store_result\<close> copies the result set to the client; the rows that will be
  fetched are the same.
\<close>

definition mysql_stmt_store_result :: "mysql_stmt \<Rightarrow> mysql_stmt" where
  "mysql_stmt_store_result h = h"

definition mysql_stmt_affected_rows :: "mysql_stmt \<Rightarrow> 64 word" where
  "mysql_stmt_affected_rows h = affected_rows h"

text \<open>
  One protocol-level row fetch: 0 with the row in the bound buffers, \<^verbatim>\<open>MYSQL_DATA_TRUNCATED\<close>
  with a row that did not fit, 1 with the error recorded in the handle, and
  \<^verbatim>\<open>MYSQL_NO_DATA\<close> once the result set is used up.
\<close>

definition mysql_stmt_fetch :: "mysql_stmt \<Rightarrow> int \<times> mysql_stmt" where
  "mysql_stmt_fetch h =
     (case pending h of
        [] \<Rightarrow> (MYSQL_NO_DATA, h\<lparr>n_fetch := n_fetch h + 1\<rparr>)
      | RowReady r # rest \<Rightarrow>
          (0, h\<lparr>pending := rest, buffers := r, n_fetch := n_fetch h + 1\<rparr>)
      | RowTruncated r # rest \<Rightarrow>
          (MYSQL_DATA_TRUNCATED, h\<lparr>pending := rest, buffers := r, n_fetch := n_fetch h + 1\<rparr>)
      | FetchFailed msg code # rest \<Rightarrow>
          (1, h\<lparr>pending := rest, stmt_error := msg, stmt_errno := code,
                n_fetch := n_fetch h + 1\<rparr>))"

subsection \<open>The collaborators of the controller\<close>

text \<open>
  Modelled from the spec: the connection (\<^verbatim>\<open>MariaConnection\<close>, not among the sources). It
  tracks a single current result, compared by identity, and is asked to reassert its
  autocommit mode when a result is closed.
\<close>

record MariaConnection =
  current_result :: "nat option"
  autocommit_calls :: nat

definition is_current_result :: "MariaConnection \<Rightarrow> nat \<Rightarrow> bool" where
  "is_current_result c r = (current_result c = Some r)"

definition autocommit :: "MariaConnection \<Rightarrow> MariaConnection" where
  "autocommit c = c\<lparr>autocommit_calls := autocommit_calls c + 1\<rparr>"

text \<open>
  Modelled from the spec: the input binder (\<^verbatim>\<open>MariaBinding\<close>, not among the sources). It
  holds a read view of the parameter table, row-major, and a row cursor;
  \<open>bind_next_row\<close> returns false when the cursor is at or past the last row, and
  otherwise binds the row under the cursor and advances.
\<close>

record MariaBinding =
  binding_rows :: "cell list list"
  binding_cursor :: nat

definition init_binding :: "cell list list \<Rightarrow> MariaBinding \<Rightarrow> MariaBinding" where
  "init_binding params b = b\<lparr>binding_rows := params, binding_cursor := 0\<rparr>"

definition bind_next_row :: "MariaBinding \<Rightarrow> bool \<times> MariaBinding" where
  "bind_next_row b =
     (if binding_cursor b \<ge> length (binding_rows b) then (False, b)
      else (True, b\<lparr>binding_cursor := binding_cursor b + 1\<rparr>))"

text \<open>
  Modelled from the spec: the result table (\<^verbatim>\<open>df_create\<close>, \<^verbatim>\<open>df_resize\<close> and \<^verbatim>\<open>df_s3\<close>,
  not among the sources). One column per cached type, every column of the table's row
  count; resizing cuts or pads every column; \<open>df_s3\<close> tags the columns with their classes.
\<close>

record 't data_frame =
  df_names :: "string list"
  df_types :: "'t list"
  df_cols :: "cell list list"
  df_nrow :: nat
  df_classed :: bool

definition df_create :: "'t list \<Rightarrow> string list \<Rightarrow> int \<Rightarrow> 't data_frame" where
  "df_create types names n =
     \<lparr>df_names = names, df_types = types,
      df_cols = map (\<lambda>t. replicate (nat n) None) types,
      df_nrow = nat n, df_classed = False\<rparr>"

definition df_resize :: "'t data_frame \<Rightarrow> int \<Rightarrow> 't data_frame" where
  "df_resize df n =
     df\<lparr>df_cols := map (\<lambda>col. take (nat n) col @ replicate (nat n - length col) None) (df_cols df),
        df_nrow := nat n\<rparr>"

definition df_s3 :: "'t data_frame \<Rightarrow> 't list \<Rightarrow> 't data_frame" where
  "df_s3 df types = df\<lparr>df_classed := True\<rparr>"

text \<open>
  Modelled from the spec: the output binder's \<^verbatim>\<open>set_list_value(out[j], i, j)\<close>
  (\<^verbatim>\<open>MariaRow\<close>, not among the sources): the buffered value of column \<open>j\<close> of the row just
  fetched is copied into row \<open>i\<close> of column \<open>j\<close>.
\<close>

definition set_list_value :: "cell list \<Rightarrow> cell list \<Rightarrow> nat \<Rightarrow> nat \<Rightarrow> cell list" where
  "set_list_value bufs col i j = col[i := (if j < length bufs then bufs ! j else None)]"

subsection \<open>The object\<close>

text \<open>
  The fields of \<^verbatim>\<open>MariaResult\<close>, named as in the source (a trailing underscore is not a
  name here, so each carries a prime). \<open>self\<close> is the identity of the object
  (\<^verbatim>\<open>this\<close>). The two counters are 64-bit, as the casts in \<open>rows_affected\<close> and
  \<open>rows_fetched\<close> say; \<open>'t\<close> is the type of logical column types
  (\<^verbatim>\<open>MariaFieldType\<close>). The last four fields are the environment: how often result
  metadata was freed and a statement closed, the warnings given, and whether the user has
  asked to interrupt.
\<close>

record 't MariaResult =
  self :: nat
  pConn_' :: MariaConnection
  pStatement_' :: "mysql_stmt option"
  pSpec_' :: "mysql_field list option"
  rowsAffected_' :: "64 word"
  rowsFetched_' :: "64 word"
  nCols_' :: int
  nParams_' :: int
  bound_' :: bool
  complete_' :: bool
  types_' :: "'t list"
  names_' :: "string list"
  bindingInput_' :: MariaBinding
  bindingOutput_' :: "'t list"
  free_result_calls :: nat
  stmt_close_calls :: nat
  warnings :: "string list"
  user_interrupt :: bool

type_synonym ('a, 't) outcome = "(error + 'a) \<times> 't MariaResult"

text \<open>\<^verbatim>\<open>%i\<close> of \<^verbatim>\<open>stop("%s [%i]", ...)\<close>: a signed decimal.\<close>

fun digits10 :: "nat \<Rightarrow> string" where
  "digits10 n =
     (if n < 10 then [''0123456789'' ! n]
      else digits10 (n div 10) @ [''0123456789'' ! (n mod 10)])"

declare digits10.simps [simp del]

definition format_int :: "int \<Rightarrow> string" where
  "format_int i = (if i < 0 then ''-'' @ digits10 (nat (- i)) else digits10 (nat i))"

definition has_result :: "'t MariaResult \<Rightarrow> bool" where
  "has_result s = (pSpec_' s \<noteq> None)"

definition active :: "'t MariaResult \<Rightarrow> bool" where
  "active s = is_current_result (pConn_' s) (self s)"

definition throw_error :: "'t MariaResult \<Rightarrow> ('a, 't) outcome" where
  "throw_error s =
     (case pStatement_' s of
        None \<Rightarrow> (Inl NullHandle, s)
      | Some h \<Rightarrow>
          (Inl (Stop (stmt_error h @ '' ['' @ format_int (sint (stmt_errno h)) @ '']'')), s))"

definition close :: "'t MariaResult \<Rightarrow> 't MariaResult" where
  "close s =
     (let s1 = (if has_result s
                then s\<lparr>free_result_calls := free_result_calls s + 1, pSpec_' := None\<rparr>
                else s);
          s2 = (if pStatement_' s1 \<noteq> None
                then s1\<lparr>stmt_close_calls := stmt_close_calls s1 + 1, pStatement_' := None\<rparr>
                else s1)
      in s2\<lparr>pConn_' := autocommit (pConn_' s2)\<rparr>)"

definition execute :: "'t MariaResult \<Rightarrow> (unit, 't) outcome" where
  "execute s =
     (let s1 = s\<lparr>complete_' := False\<rparr> in
      case pStatement_' s1 of
        None \<Rightarrow> (Inl NullHandle, s1)
      | Some h \<Rightarrow>
          (case mysql_stmt_execute h of
             (rc, h1) \<Rightarrow>
               let s2 = s1\<lparr>pStatement_' := Some h1\<rparr> in
               if rc \<noteq> 0 then throw_error s2
               else if has_result s2
                 then (Inr (), s2\<lparr>pStatement_' := Some (mysql_stmt_store_result h1)\<rparr>)
                 else (Inr (),
                       s2\<lparr>rowsAffected_' := rowsAffected_' s2 + mysql_stmt_affected_rows h1\<rparr>)))"

definition rows_affected :: "'t MariaResult \<Rightarrow> int" where
  "rows_affected s =
     (if \<not> bound_' s then NA_INTEGER
      else sint (ucast (rowsAffected_' s) :: 32 word))"

definition rows_fetched :: "'t MariaResult \<Rightarrow> int" where
  "rows_fetched s =
     (if \<not> bound_' s then 0
      else sint (ucast (rowsFetched_' s) :: 32 word))"

definition complete :: "'t MariaResult \<Rightarrow> bool" where
  "complete s =
     (if \<not> bound_' s then False
      else \<not> has_result s \<or> complete_' s)"

subsection \<open>Binding, stepping and fetching\<close>

text \<open>
  The parameter rows not yet bound, and the rows of the current execution not yet fetched:
  the two quantities the loops below consume.
\<close>

definition rows_to_bind :: "'t MariaResult \<Rightarrow> nat" where
  "rows_to_bind s =
     length (binding_rows (bindingInput_' s)) - binding_cursor (bindingInput_' s)"

definition rows_pending :: "'t MariaResult \<Rightarrow> nat" where
  "rows_pending s = (case pStatement_' s of None \<Rightarrow> 0 | Some h \<Rightarrow> length (pending h))"

text \<open>The loop of \<open>bind\<close>: \<^verbatim>\<open>while (bindingInput_.bind_next_row()) execute();\<close>\<close>

function bind_loop :: "'t MariaResult \<Rightarrow> (unit, 't) outcome" where
  "bind_loop s =
     (case bind_next_row (bindingInput_' s) of
        (False, b) \<Rightarrow> (Inr (), s\<lparr>bindingInput_' := b\<rparr>)
      | (True, b) \<Rightarrow>
          (case execute (s\<lparr>bindingInput_' := b\<rparr>) of
             (Inl e, s1) \<Rightarrow> (Inl e, s1)
           | (Inr u, s1) \<Rightarrow> bind_loop s1))"
  by pat_completeness auto

lemma throw_error_state: "snd (throw_error s) = s"
  by (simp add: throw_error_def split: option.splits)

lemma execute_bindingInput: "bindingInput_' (snd (execute s)) = bindingInput_' s"
  by (simp add: execute_def Let_def throw_error_def split: option.splits prod.splits)

lemma bind_next_row_True:
  "bind_next_row b = (True, b') \<Longrightarrow>
     binding_rows b' = binding_rows b \<and> binding_cursor b' = binding_cursor b + 1 \<and>
     binding_cursor b < length (binding_rows b)"
  by (auto simp: bind_next_row_def split: if_splits)

lemma bind_next_row_False:
  "bind_next_row b = (False, b') \<Longrightarrow> b' = b \<and> length (binding_rows b) \<le> binding_cursor b"
  by (auto simp: bind_next_row_def split: if_splits)

lemma bound_row_consumed:
  assumes "bind_next_row (bindingInput_' s) = (True, b)"
    and "execute (s\<lparr>bindingInput_' := b\<rparr>) = (r, s')"
  shows "rows_to_bind s' < rows_to_bind s"
proof -
  have "bindingInput_' s' = b"
    using execute_bindingInput [of "s\<lparr>bindingInput_' := b\<rparr>"] assms(2) by simp
  with bind_next_row_True [OF assms(1)] show ?thesis
    by (auto simp: rows_to_bind_def)
qed

termination bind_loop
proof (relation "measure rows_to_bind")
  show "wf (measure rows_to_bind)" by simp
next
  fix s :: "'t MariaResult" and x y xa ya b
  assume "(x, y) = bind_next_row (bindingInput_' s)" and "x = True"
    and "(xa, ya) = execute (s\<lparr>bindingInput_' := y\<rparr>)" and "xa = Inr b"
  then show "(ya, s) \<in> measure rows_to_bind"
    using bound_row_consumed [of s y xa ya] by simp
qed

definition bind :: "cell list list \<Rightarrow> 't MariaResult \<Rightarrow> (unit, 't) outcome" where
  "bind params s =
     (let s1 = s\<lparr>rowsAffected_' := 0\<rparr>;
          s2 = s1\<lparr>bindingInput_' := init_binding params (bindingInput_' s1)\<rparr>
      in if has_result s2 then (Inr (), s2\<lparr>complete_' := True, bound_' := True\<rparr>)
         else (case bind_loop s2 of
                 (Inl e, s3) \<Rightarrow> (Inl e, s3)
               | (Inr u, s3) \<Rightarrow> (Inr (), s3\<lparr>bound_' := True\<rparr>)))"

text \<open>
  \<open>cache_metadata\<close> appends one name and one logical type per field of the metadata.
  The type mapper \<^verbatim>\<open>variable_type_from_field_type\<close> is not among the sources: it is the
  parameter \<open>vt\<close>, from the field's type code and its binary flag to the logical type.
\<close>

definition cache_metadata :: "(int \<Rightarrow> bool \<Rightarrow> 't) \<Rightarrow> 't MariaResult \<Rightarrow> 't MariaResult" where
  "cache_metadata vt s =
     (case pSpec_' s of
        None \<Rightarrow> s
      | Some fs \<Rightarrow>
          s\<lparr>nCols_' := int (length fs),
            names_' := names_' s @ map field_name fs,
            types_' := types_' s @ map (\<lambda>f. vt (field_type f) (charsetnr f = 63)) fs\<rparr>)"

definition send_query :: "(int \<Rightarrow> bool \<Rightarrow> 't) \<Rightarrow> string \<Rightarrow> 't MariaResult \<Rightarrow> (unit, 't) outcome" where
  "send_query vt sql s =
     (case pStatement_' s of
        None \<Rightarrow> (Inl NullHandle, s)
      | Some h \<Rightarrow>
          (case mysql_stmt_prepare h sql of
             (rc, h1) \<Rightarrow>
               let s1 = s\<lparr>pStatement_' := Some h1\<rparr> in
               if rc \<noteq> 0 then throw_error s1
               else
                 let s2 = s1\<lparr>nParams_' := sint (word_of_nat (mysql_stmt_param_count h1) :: 32 word)\<rparr>;
                     s3 = s2\<lparr>pSpec_' := mysql_stmt_result_metadata h1\<rparr>
                 in case (if nParams_' s3 = 0
                          then (case execute s3 of
                                  (Inl e, s4) \<Rightarrow> (Inl e, s4)
                                | (Inr u, s4) \<Rightarrow> (Inr (), s4\<lparr>bound_' := True\<rparr>))
                          else (Inr (), s3)) of
                      (Inl e, s5) \<Rightarrow> (Inl e, s5)
                    | (Inr u, s5) \<Rightarrow>
                        if has_result s5
                        then (let s6 = cache_metadata vt s5
                              in (Inr (), s6\<lparr>bindingOutput_' := types_' s6\<rparr>))
                        else (Inr (), s5)))"

definition fetch_row :: "'t MariaResult \<Rightarrow> (bool, 't) outcome" where
  "fetch_row s =
     (if complete_' s then (Inr False, s)
      else case pStatement_' s of
        None \<Rightarrow> (Inl NullHandle, s)
      | Some h \<Rightarrow>
          (case mysql_stmt_fetch h of
             (result, h1) \<Rightarrow>
               let s1 = s\<lparr>pStatement_' := Some h1\<rparr> in
               if result = MYSQL_DATA_TRUNCATED \<or> result = 0 then (Inr True, s1)
               else if result = 1 then throw_error s1
               else if result = MYSQL_NO_DATA then (Inr False, s1\<lparr>complete_' := True\<rparr>)
               else (Inr False, s1)))"

function step :: "'t MariaResult \<Rightarrow> (bool, 't) outcome" where
  "step s =
     (case fetch_row s of
        (Inl e, s1) \<Rightarrow> (Inl e, s1)
      | (Inr True, s1) \<Rightarrow> (Inr True, s1\<lparr>rowsFetched_' := rowsFetched_' s1 + 1\<rparr>)
      | (Inr False, s1) \<Rightarrow>
          (case bind_next_row (bindingInput_' s1) of
             (False, b) \<Rightarrow> (Inr False, s1\<lparr>bindingInput_' := b\<rparr>)
           | (True, b) \<Rightarrow>
               (case execute (s1\<lparr>bindingInput_' := b\<rparr>) of
                  (Inl e, s2) \<Rightarrow> (Inl e, s2)
                | (Inr u, s2) \<Rightarrow> step s2)))"
  by pat_completeness auto

lemma fetch_row_bindingInput: "bindingInput_' (snd (fetch_row s)) = bindingInput_' s"
  by (simp add: fetch_row_def Let_def throw_error_def split: option.splits prod.splits)

lemma fetch_row_rows_to_bind: "fetch_row s = (r, s') \<Longrightarrow> rows_to_bind s' = rows_to_bind s"
  using fetch_row_bindingInput [of s] by (simp add: rows_to_bind_def)

termination step
proof (relation "measure rows_to_bind")
  show "wf (measure rows_to_bind)" by simp
next
  fix s :: "'t MariaResult" and x y b xa ya xb yb ba
  assume "(x, y) = fetch_row s" and "x = Inr b" and "b = False"
    and "(xa, ya) = bind_next_row (bindingInput_' y)" and "xa = True"
    and "(xb, yb) = execute (y\<lparr>bindingInput_' := ya\<rparr>)" and "xb = Inr ba"
  then show "(yb, s) \<in> measure rows_to_bind"
    using bound_row_consumed [of y ya xb yb] fetch_row_rows_to_bind [of s x y] by simp
qed

declare bind_loop.simps [simp del] step.simps [simp del]

text \<open>
  The inner loop of \<open>fetch\<close>, \<^verbatim>\<open>for (int j = 0; j < nCols_; ++j)\<close>: the row in the
  buffers goes into row \<open>i\<close> of the first \<open>nCols_\<close> columns.
\<close>

definition row_buffers :: "'t MariaResult \<Rightarrow> cell list" where
  "row_buffers s = (case pStatement_' s of None \<Rightarrow> [] | Some h \<Rightarrow> buffers h)"

definition copy_row :: "'t MariaResult \<Rightarrow> 't data_frame \<Rightarrow> int \<Rightarrow> 't data_frame" where
  "copy_row s out i =
     out\<lparr>df_cols :=
       map (\<lambda>(j, col). if int j < nCols_' s
                         then set_list_value (row_buffers s) col (nat i) j else col)
           (enumerate 0 (df_cols out))\<rparr>"

text \<open>
  The loop of \<open>fetch\<close>, from \<^verbatim>\<open>for (;;)\<close> to its closing brace, on the loop's variables
  \<open>i\<close>, \<open>n\<close> and \<open>out\<close>. It returns them as they are when the loop is left.
\<close>

function fetch_loop ::
  "int \<Rightarrow> int \<Rightarrow> int \<Rightarrow> 't data_frame \<Rightarrow> 't MariaResult \<Rightarrow> (int \<times> int \<times> 't data_frame, 't) outcome"
where
  "fetch_loop n_max i n out s =
     (if i \<ge> n \<and> n_max > 0 then (Inr (i, n, out), s)
      else
        (case step s of
           (Inl e, s1) \<Rightarrow> (Inl e, s1)
         | (Inr False, s1) \<Rightarrow> (Inr (i, n, out), s1)
         | (Inr True, s1) \<Rightarrow>
             if i \<ge> n \<and> n * 2 > INT_MAX then (Inl SignedOverflow, s1)
             else
               let n1 = (if i \<ge> n then n * 2 else n);
                   out1 = (if i \<ge> n then df_resize out n1 else out);
                   out2 = copy_row s1 out1 i;
                   i1 = i + 1
               in if i1 mod 1000 = 0 \<and> user_interrupt s1 then (Inl Interrupted, s1)
                  else fetch_loop n_max i1 n1 out2 s1))"
  by pat_completeness auto


lemma fetch_row_True:
  "fetch_row s = (Inr True, s') \<Longrightarrow>
     rows_pending s' < rows_pending s \<and> rows_to_bind s' = rows_to_bind s"
  by (auto simp: fetch_row_def mysql_stmt_fetch_def rows_pending_def rows_to_bind_def
      throw_error_def MYSQL_NO_DATA_def MYSQL_DATA_TRUNCATED_def Let_def
      split: if_splits option.splits list.splits fetch_event.splits)

lemma step_consumes:
  "step s = (Inr True, s') \<Longrightarrow>
     rows_to_bind s' < rows_to_bind s \<or>
     (rows_to_bind s' = rows_to_bind s \<and> rows_pending s' < rows_pending s)"
proof (induction s rule: step.induct)
  case (1 s)
  obtain r s1 where fr: "fetch_row s = (r, s1)" by (cases "fetch_row s")
  show ?case
  proof (cases r)
    case (Inl e)
    with fr "1.prems" show ?thesis by (simp add: step.simps)
  next
    case (Inr ok)
    show ?thesis
    proof (cases ok)
      case True
      with Inr fr "1.prems" have "s' = s1\<lparr>rowsFetched_' := rowsFetched_' s1 + 1\<rparr>"
        by (simp add: step.simps)
      with fetch_row_True [of s s1] fr Inr True show ?thesis
        by (simp add: rows_pending_def rows_to_bind_def)
    next
      case False
      obtain nb b where nx: "bind_next_row (bindingInput_' s1) = (nb, b)"
        by (cases "bind_next_row (bindingInput_' s1)")
      show ?thesis
      proof (cases nb)
        case nbF: False
        with Inr False fr nx "1.prems" show ?thesis by (simp add: step.simps)
      next
        case nbT: True
        obtain r2 s2 where ex: "execute (s1\<lparr>bindingInput_' := b\<rparr>) = (r2, s2)"
          by (cases "execute (s1\<lparr>bindingInput_' := b\<rparr>)")
        show ?thesis
        proof (cases r2)
          case e: (Inl e)
          with Inr False fr nx nbT ex "1.prems" show ?thesis by (simp add: step.simps)
        next
          case u: (Inr u)
          with Inr False fr nx nbT ex "1.prems" have st: "step s2 = (Inr True, s')"
            by (simp add: step.simps)
          have "rows_to_bind s' < rows_to_bind s2 \<or>
                (rows_to_bind s' = rows_to_bind s2 \<and> rows_pending s' < rows_pending s2)"
            using "1.IH" [of r s1 ok nb b r2 s2 u] fr Inr False nx nbT ex u st by simp
          moreover have "rows_to_bind s2 < rows_to_bind s1"
            using bound_row_consumed [of s1 b r2 s2] nx nbT ex by simp
          moreover have "rows_to_bind s1 = rows_to_bind s"
            using fetch_row_rows_to_bind [OF fr] .
          ultimately show ?thesis by auto
        qed
      qed
    qed
  qed
qed

termination fetch_loop
proof (relation "measures [\<lambda>(n_max, i, n, out, s). rows_to_bind s, \<lambda>(n_max, i, n, out, s). rows_pending s]")
  show "wf (measures [\<lambda>(n_max :: int, i :: int, n :: int, out :: 't data_frame, s :: 't MariaResult). rows_to_bind s,
      \<lambda>(n_max, i, n, out, s). rows_pending s])" by simp
next
  fix n_max i n :: int and out :: "'t data_frame" and s :: "'t MariaResult" and x y b xa xb xc xd
  assume "(x, y) = step s" and "x = Inr b" and "b = True"
  then have "step s = (Inr True, y)" by simp
  from step_consumes [OF this]
  show "((n_max, xd, xa, xc, y), n_max, i, n, out, s)
        \<in> measures [\<lambda>(n_max, i, n, out, s). rows_to_bind s, \<lambda>(n_max, i, n, out, s). rows_pending s]"
    by auto
qed

declare fetch_loop.simps [simp del]

definition fetch :: "int \<Rightarrow> 't MariaResult \<Rightarrow> ('t data_frame, 't) outcome" where
  "fetch n_max s =
     (if \<not> bound_' s then (Inl (Stop ''Query needs to be bound before fetching''), s)
      else if \<not> active s then (Inl (Stop ''Inactive result set''), s)
      else if \<not> has_result s then
        (let s1 = (if length (names_' s) = 0
                   then s\<lparr>warnings := warnings s @
                     [''Use dbExecute() instead of dbGetQuery() for statements, and also avoid dbFetch()'']\<rparr>
                   else s)
         in (Inr (df_create (types_' s1) (names_' s1) 0), s1))
      else
        let n = (if n_max < 0 then 100 else n_max);
            out = df_create (types_' s) (names_' s) n
        in if n = 0 then (Inr out, s)
           else
             (case fetch_loop n_max 0 n out s of
                (Inl e, s1) \<Rightarrow> (Inl e, s1)
              | (Inr (i, n1, out1), s1) \<Rightarrow>
                  let out2 = (if i < n1 then df_resize out1 i else out1)
                  in (Inr (df_s3 out2 (types_' s1)), s1)))"

subsection \<open>Quantities the claims speak of\<close>

text \<open>
  The definitions of this subsection are not code of the program: they name what the
  claims below are about.
\<close>

text \<open>What a reply to an execution reports: its affected-row count, and whether the
  server accepted the execution.\<close>

definition reply_affected :: "exec_reply \<Rightarrow> 64 word" where
  "reply_affected r = (case r of ExecDone a rows \<Rightarrow> a | ExecFailed msg code \<Rightarrow> 0)"

definition accepted :: "exec_reply \<Rightarrow> bool" where
  "accepted r = (case r of ExecDone a rows \<Rightarrow> True | ExecFailed msg code \<Rightarrow> False)"

text \<open>
  The rows a fetch can still produce, in the order in which it will meet them: those of
  the current execution that are not yet fetched (none once the result is marked
  complete), then those of the executions that the parameter rows not yet bound will
  trigger. A result is exhausted when it is marked complete and no parameter row is left.
\<close>

fun is_row :: "fetch_event \<Rightarrow> bool" where
  "is_row (RowReady r) = True"
| "is_row (RowTruncated r) = True"
| "is_row (FetchFailed msg code) = False"

fun event_row :: "fetch_event \<Rightarrow> cell list" where
  "event_row (RowReady r) = r"
| "event_row (RowTruncated r) = r"
| "event_row (FetchFailed msg code) = []"

definition reply_row_list :: "exec_reply \<Rightarrow> cell list list" where
  "reply_row_list r =
     (case r of
        ExecDone a rows \<Rightarrow> map event_row (filter is_row rows)
      | ExecFailed msg code \<Rightarrow> [])"

definition current_left :: "'t MariaResult \<Rightarrow> cell list list" where
  "current_left s =
     (case pStatement_' s of
        None \<Rightarrow> []
      | Some h \<Rightarrow> if complete_' s then [] else map event_row (filter is_row (pending h)))"

definition scheduled_left :: "'t MariaResult \<Rightarrow> cell list list" where
  "scheduled_left s =
     (case pStatement_' s of
        None \<Rightarrow> []
      | Some h \<Rightarrow>
          concat (map (\<lambda>k. reply_row_list (on_execute h (n_exec h + k))) [0..<rows_to_bind s]))"

definition rows_left :: "'t MariaResult \<Rightarrow> cell list list" where
  "rows_left s = current_left s @ scheduled_left s"

definition rows_available :: "'t MariaResult \<Rightarrow> nat" where
  "rows_available s = length (rows_left s)"

definition exhausted :: "'t MariaResult \<Rightarrow> bool" where
  "exhausted s = (complete_' s \<and> rows_to_bind s = 0)"

text \<open>
  An environment in which nothing fails: the user does not interrupt, the rows still
  pending are rows and not fetch errors, and the server accepts the execution of every
  parameter row left and answers it with rows only.
\<close>

definition reply_benign :: "exec_reply \<Rightarrow> bool" where
  "reply_benign r =
     (case r of ExecDone a rows \<Rightarrow> list_all is_row rows | ExecFailed msg code \<Rightarrow> False)"

definition benign :: "'t MariaResult \<Rightarrow> bool" where
  "benign s =
     (\<not> user_interrupt s \<and>
      (case pStatement_' s of
         None \<Rightarrow> False
       | Some h \<Rightarrow>
           (complete_' s \<or> list_all is_row (pending h)) \<and>
           list_all (\<lambda>k. reply_benign (on_execute h (n_exec h + k))) [0..<rows_to_bind s]))"

text \<open>
  What a table holds. \<open>cell_of nc r j\<close> is what the loop writes into column \<open>j\<close> for the
  fetched row \<open>r\<close> when the statement has \<open>nc\<close> columns; a column of capacity \<open>n\<close> that
  holds the rows \<open>rs\<close> has their cells first and is empty from there on.
\<close>

definition cell_of :: "int \<Rightarrow> cell list \<Rightarrow> nat \<Rightarrow> cell" where
  "cell_of nc r j = (if int j < nc \<and> j < length r then r ! j else None)"

definition column_of :: "int \<Rightarrow> cell list list \<Rightarrow> nat \<Rightarrow> nat \<Rightarrow> cell list" where
  "column_of nc rs n j = map (\<lambda>r. cell_of nc r j) rs @ replicate (n - length rs) None"

definition table_holds :: "'t data_frame \<Rightarrow> int \<Rightarrow> cell list list \<Rightarrow> nat \<Rightarrow> bool" where
  "table_holds df nc rs n =
     (df_nrow df = n \<and> df_cols df = map (column_of nc rs n) [0..<length (df_cols df)])"

subsection \<open>Sample statements\<close>

text \<open>
  Concrete inputs on which the theorems below are instantiated: a type mapper, a
  parameterless query with one column whose every execution yields the given result set, a
  one-parameter statement without a result set whose k-th execution affects k + 1 rows, and
  the object as its constructor leaves it (registered as its connection's current result;
  the two counts that the constructor does not initialise are 0).
\<close>

definition sample_type :: "int \<Rightarrow> bool \<Rightarrow> string" where
  "sample_type code binary = (if binary then ''blob'' else ''string'')"

definition sample_select :: "fetch_event list \<Rightarrow> mysql_stmt" where
  "sample_select rows =
     \<lparr>on_prepare =
        (\<lambda>sql. Prepared 0 (Some [\<lparr>field_name = ''x'', field_type = 253, charsetnr = 33\<rparr>])),
      on_execute = (\<lambda>k. ExecDone 0 rows),
      param_count = 0, result_metadata = None, n_exec = 0, affected_rows = 0,
      pending = [], buffers = [], stmt_error = [], stmt_errno = 0, n_fetch = 0\<rparr>"

definition sample_insert :: mysql_stmt where
  "sample_insert =
     \<lparr>on_prepare = (\<lambda>sql. Prepared 1 None),
      on_execute = (\<lambda>k. ExecDone (word_of_nat (k + 1)) []),
      param_count = 0, result_metadata = None, n_exec = 0, affected_rows = 0,
      pending = [], buffers = [], stmt_error = [], stmt_errno = 0, n_fetch = 0\<rparr>"

definition new_result :: "mysql_stmt \<Rightarrow> string MariaResult" where
  "new_result h =
     \<lparr>self = 1, pConn_' = \<lparr>current_result = Some 1, autocommit_calls = 0\<rparr>,
      pStatement_' = Some h, pSpec_' = None, rowsAffected_' = 0, rowsFetched_' = 0,
      nCols_' = 0, nParams_' = 0, bound_' = False, complete_' = False,
      types_' = [], names_' = [],
      bindingInput_' = \<lparr>binding_rows = [], binding_cursor = 0\<rparr>, bindingOutput_' = [],
      free_result_calls = 0, stmt_close_calls = 0, warnings = [], user_interrupt = False\<rparr>"

definition three_rows :: "fetch_event list" where
  "three_rows = [RowReady [Some ''1''], RowTruncated [Some ''2''], RowReady [None]]"

definition selected :: "string MariaResult" where
  "selected =
     snd (send_query sample_type ''SELECT x FROM t'' (new_result (sample_select three_rows)))"

definition prepared_insert :: "string MariaResult" where
  "prepared_insert =
     snd (send_query sample_type ''INSERT INTO t VALUES (?)'' (new_result sample_insert))"

text \<open>A query with one parameter and one column, prepared and not yet bound.\<close>

definition sample_query :: mysql_stmt where
  "sample_query =
     (sample_select three_rows)\<lparr>on_prepare :=
       (\<lambda>sql. Prepared 1 (Some [\<lparr>field_name = ''x'', field_type = 253, charsetnr = 33\<rparr>]))\<rparr>"

definition prepared_query :: "string MariaResult" where
  "prepared_query =
     snd (send_query sample_type ''SELECT x FROM t WHERE y = ?'' (new_result sample_query))"

text \<open>The same query after another result has become the connection's current one.\<close>

definition stale :: "string MariaResult" where
  "stale = selected\<lparr>pConn_' := \<lparr>current_result = Some 2, autocommit_calls = 0\<rparr>\<rparr>"

text \<open>The same query with its result set used up, and with a failing fetch ahead.\<close>

definition drained :: "string MariaResult" where
  "drained = new_result (sample_select [])"

definition failing :: "string MariaResult" where
  "failing = new_result ((sample_select [])\<lparr>pending := [FetchFailed ''Lost connection'' 2013]\<rparr>)"

text \<open>
  A one-parameter statement without a result set whose second execution the server rejects,
  and a parameter table of three rows.
\<close>

definition sample_rejecting :: mysql_stmt where
  "sample_rejecting =
     sample_insert\<lparr>on_execute :=
       (\<lambda>k. if k = 1 then ExecFailed ''Duplicate entry'' 1062 else ExecDone 1 [])\<rparr>"

definition three_params :: "cell list list" where
  "three_params = [[Some ''a''], [Some ''b''], [None]]"

definition rejected_insert :: "string MariaResult" where
  "rejected_insert =
     snd (send_query sample_type ''INSERT INTO t VALUES (?)'' (new_result sample_rejecting))"

text \<open>The same query with 250 rows behind it.\<close>


definition many_rows :: "string MariaResult" where
  "many_rows =
     snd (send_query sample_type ''SELECT x FROM t''
       (new_result (sample_select (replicate 250 (RowReady [Some ''1''])))))"


subsection \<open>Evaluation of the samples\<close>

lemmas sample_defs =
  sample_type_def sample_select_def sample_insert_def new_result_def three_rows_def

lemmas lib_defs =
  mysql_stmt_prepare_def mysql_stmt_param_count_def mysql_stmt_result_metadata_def
  mysql_stmt_execute_def mysql_stmt_store_result_def mysql_stmt_affected_rows_def
  mysql_stmt_fetch_def MYSQL_NO_DATA_def MYSQL_DATA_TRUNCATED_def

lemma selected_eq:
  "selected =
     \<lparr>self = 1, pConn_' = \<lparr>current_result = Some 1, autocommit_calls = 0\<rparr>,
      pStatement_' =
        Some ((sample_select three_rows)
          \<lparr>result_metadata := Some [\<lparr>field_name = ''x'', field_type = 253, charsetnr = 33\<rparr>],
           n_exec := 1, pending := three_rows\<rparr>),
      pSpec_' = Some [\<lparr>field_name = ''x'', field_type = 253, charsetnr = 33\<rparr>],
      rowsAffected_' = 0, rowsFetched_' = 0, nCols_' = 1, nParams_' = 0,
      bound_' = True, complete_' = False, types_' = [''string''], names_' = [''x''],
      bindingInput_' = \<lparr>binding_rows = [], binding_cursor = 0\<rparr>,
      bindingOutput_' = [''string''], free_result_calls = 0, stmt_close_calls = 0,
      warnings = [], user_interrupt = False\<rparr>"
  by (simp add: selected_def send_query_def execute_def has_result_def cache_metadata_def
      throw_error_def Let_def lib_defs sample_defs)

lemma prepared_query_eq:
  "prepared_query =
     \<lparr>self = 1, pConn_' = \<lparr>current_result = Some 1, autocommit_calls = 0\<rparr>,
      pStatement_' =
        Some (sample_query
          \<lparr>param_count := 1,
           result_metadata := Some [\<lparr>field_name = ''x'', field_type = 253, charsetnr = 33\<rparr>]\<rparr>),
      pSpec_' = Some [\<lparr>field_name = ''x'', field_type = 253, charsetnr = 33\<rparr>],
      rowsAffected_' = 0, rowsFetched_' = 0, nCols_' = 1, nParams_' = 1,
      bound_' = False, complete_' = False, types_' = [''string''], names_' = [''x''],
      bindingInput_' = \<lparr>binding_rows = [], binding_cursor = 0\<rparr>,
      bindingOutput_' = [''string''], free_result_calls = 0, stmt_close_calls = 0,
      warnings = [], user_interrupt = False\<rparr>"
  by (simp add: prepared_query_def sample_query_def send_query_def execute_def has_result_def
      cache_metadata_def throw_error_def Let_def lib_defs sample_defs)

lemma prepared_insert_eq:
  "prepared_insert = (new_result (sample_insert\<lparr>param_count := 1\<rparr>))\<lparr>nParams_' := 1\<rparr>"
  by (simp add: prepared_insert_def send_query_def execute_def has_result_def
      cache_metadata_def throw_error_def Let_def lib_defs sample_defs)

lemma rejected_insert_eq:
  "rejected_insert = (new_result (sample_rejecting\<lparr>param_count := 1\<rparr>))\<lparr>nParams_' := 1\<rparr>"
  by (simp add: rejected_insert_def send_query_def execute_def has_result_def
      cache_metadata_def throw_error_def Let_def lib_defs sample_defs sample_rejecting_def)

lemma many_rows_eq:
  "many_rows =
     \<lparr>self = 1, pConn_' = \<lparr>current_result = Some 1, autocommit_calls = 0\<rparr>,
      pStatement_' =
        Some ((sample_select (replicate 250 (RowReady [Some ''1''])))
          \<lparr>result_metadata := Some [\<lparr>field_name = ''x'', field_type = 253, charsetnr = 33\<rparr>],
           n_exec := 1, pending := replicate 250 (RowReady [Some ''1''])\<rparr>),
      pSpec_' = Some [\<lparr>field_name = ''x'', field_type = 253, charsetnr = 33\<rparr>],
      rowsAffected_' = 0, rowsFetched_' = 0, nCols_' = 1, nParams_' = 0,
      bound_' = True, complete_' = False, types_' = [''string''], names_' = [''x''],
      bindingInput_' = \<lparr>binding_rows = [], binding_cursor = 0\<rparr>,
      bindingOutput_' = [''string''], free_result_calls = 0, stmt_close_calls = 0,
      warnings = [], user_interrupt = False\<rparr>"
  by (simp add: many_rows_def send_query_def execute_def has_result_def cache_metadata_def
      throw_error_def Let_def lib_defs sample_defs)

subsection \<open>Casting a counter to \<^verbatim>\<open>int\<close>\<close>

lemma cast_counter:
  fixes c :: "64 word"
  assumes "unat c < 2 ^ 31"
  shows "sint (ucast c :: 32 word) = int (unat c)"
proof -
  have "sint (ucast c :: 32 word) = signed_take_bit 31 (uint c)"
    by (simp add: signed_ucast_eq)
  also have "\<dots> = uint c"
  proof (rule signed_take_bit_int_eq_self)
    show "- (2 ^ 31) \<le> uint c" by (rule order_trans [of _ 0]) simp_all
    from assms have "int (unat c) < 2 ^ 31"
      by (simp only: of_nat_less_numeral_power_cancel_iff)
    then show "uint c < 2 ^ 31" by simp
  qed
  finally show ?thesis by simp
qed

section \<open>The claims\<close>

subsection \<open>Accessors\<close>

text \<open>
  C1, as the spec states it: \<open>complete()\<close> returns true if the statement is not bound,
  or if it has no result set. It does not: the prepared insert statement is not bound and
  has no result set, and \<open>complete()\<close> returns false there.
\<close>

theorem complete_unbound_counterexample:
  "\<not> bound_' prepared_insert \<and> \<not> has_result prepared_insert \<and> \<not> complete prepared_insert"
  by (simp add: prepared_insert_eq complete_def has_result_def new_result_def)

text \<open>
  C1, amended: \<open>complete()\<close> returns false while the statement is not bound; once it is
  bound, \<open>complete()\<close> returns true exactly if the statement has no result set or the
  completion flag is set.
\<close>

theorem complete_iff:
  "complete s \<longleftrightarrow> bound_' s \<and> (\<not> has_result s \<or> complete_' s)"
  by (simp add: complete_def)

theorem complete_iff_witness:
  "bound_' selected \<and> has_result selected \<and> \<not> complete_' selected \<and> \<not> complete selected \<and>
   complete (selected\<lparr>complete_' := True\<rparr>) \<and>
   \<not> has_result (prepared_insert\<lparr>bound_' := True\<rparr>) \<and>
   complete (prepared_insert\<lparr>bound_' := True\<rparr>)"
  using complete_iff [of selected] complete_iff [of "selected\<lparr>complete_' := True\<rparr>"]
    complete_iff [of "prepared_insert\<lparr>bound_' := True\<rparr>"]
  by (simp add: selected_eq prepared_insert_eq new_result_def has_result_def)

text \<open>
  C2, as the spec states it: on a statement that has never been bound both
  \<open>rows_affected()\<close> and \<open>rows_fetched()\<close> return the "not available" sentinel. On the
  unbound insert statement \<open>rows_fetched()\<close> returns 0, which is not the sentinel.
\<close>

theorem rows_fetched_unbound_counterexample:
  "\<not> bound_' prepared_insert \<and> rows_fetched prepared_insert \<noteq> NA_INTEGER"
  by (simp add: prepared_insert_eq rows_fetched_def new_result_def NA_INTEGER_def)

text \<open>
  C2, amended: while the statement is not bound, \<open>rows_affected()\<close> returns the "not
  available" sentinel and \<open>rows_fetched()\<close> returns 0; once it is bound, each returns its
  accumulated counter, as long as the counter is below \<open>2^31\<close>.
\<close>

theorem row_counters:
  "(\<not> bound_' s \<longrightarrow> rows_affected s = NA_INTEGER \<and> rows_fetched s = 0) \<and>
   (bound_' s \<and> unat (rowsAffected_' s) < 2 ^ 31 \<longrightarrow>
      rows_affected s = int (unat (rowsAffected_' s))) \<and>
   (bound_' s \<and> unat (rowsFetched_' s) < 2 ^ 31 \<longrightarrow>
      rows_fetched s = int (unat (rowsFetched_' s)))"
  by (simp add: rows_affected_def rows_fetched_def cast_counter)

theorem row_counters_witness:
  "\<not> bound_' prepared_insert \<and> rows_affected prepared_insert = NA_INTEGER \<and>
   rows_fetched prepared_insert = 0 \<and>
   bound_' (selected\<lparr>rowsAffected_' := 6, rowsFetched_' := 2\<rparr>) \<and>
   rows_affected (selected\<lparr>rowsAffected_' := 6, rowsFetched_' := 2\<rparr>) = 6 \<and>
   rows_fetched (selected\<lparr>rowsAffected_' := 6, rowsFetched_' := 2\<rparr>) = 2"
  using row_counters [of prepared_insert]
    row_counters [of "selected\<lparr>rowsAffected_' := 6, rowsFetched_' := 2\<rparr>"]
  by (simp add: prepared_insert_eq selected_eq new_result_def)

subsection \<open>Closing\<close>

text \<open>
  C9: \<open>close()\<close> is idempotent. A second call frees no result metadata and closes no
  statement: it leaves the state of the first call but for one more request to the
  connection to reassert autocommit. One call frees the metadata at most once and closes
  the statement at most once, and leaves both pointers NULL.
\<close>

theorem close_idempotent:
  "close (close s) = (close s)\<lparr>pConn_' := autocommit (pConn_' (close s))\<rparr> \<and>
   free_result_calls (close (close s)) = free_result_calls (close s) \<and>
   stmt_close_calls (close (close s)) = stmt_close_calls (close s) \<and>
   free_result_calls (close s) \<le> free_result_calls s + 1 \<and>
   stmt_close_calls (close s) \<le> stmt_close_calls s + 1 \<and>
   pSpec_' (close s) = None \<and> pStatement_' (close s) = None"
  by (simp add: close_def has_result_def Let_def)

subsection \<open>Preparing\<close>

text \<open>
  C6: for a statement that takes no parameters, \<open>send_query\<close> calls the library's
  execute exactly once; when it returns normally the bound flag is true, with no call of
  \<open>bind\<close>; and it returns normally when the server accepts that execution.
\<close>

theorem send_query_no_parameters:
  assumes "pStatement_' s = Some h" and "on_prepare h sql = Prepared 0 md"
  shows "\<exists>r s' h'. send_query vt sql s = (r, s') \<and> pStatement_' s' = Some h' \<and>
           n_exec h' = n_exec h + 1 \<and>
           (r = Inr () \<longrightarrow> bound_' s') \<and>
           (accepted (on_execute h (n_exec h)) \<longrightarrow> r = Inr ())"
  using assms
  by (cases "on_execute h (n_exec h)")
    (simp_all add: send_query_def execute_def mysql_stmt_prepare_def mysql_stmt_execute_def
      mysql_stmt_param_count_def mysql_stmt_result_metadata_def mysql_stmt_store_result_def
      mysql_stmt_affected_rows_def throw_error_def has_result_def cache_metadata_def
      accepted_def Let_def split: option.splits)

theorem send_query_no_parameters_witness:
  "pStatement_' (new_result (sample_select three_rows)) = Some (sample_select three_rows) \<and>
   on_prepare (sample_select three_rows) ''SELECT x FROM t'' =
     Prepared 0 (Some [\<lparr>field_name = ''x'', field_type = 253, charsetnr = 33\<rparr>]) \<and>
   fst (send_query sample_type ''SELECT x FROM t'' (new_result (sample_select three_rows))) = Inr () \<and>
   bound_' (snd (send_query sample_type ''SELECT x FROM t'' (new_result (sample_select three_rows)))) \<and>
   map_option n_exec (pStatement_'
     (snd (send_query sample_type ''SELECT x FROM t'' (new_result (sample_select three_rows))))) = Some 1"
proof -
  have p: "pStatement_' (new_result (sample_select three_rows)) = Some (sample_select three_rows)"
    by (simp add: new_result_def)
  have q: "on_prepare (sample_select three_rows) ''SELECT x FROM t'' =
     Prepared 0 (Some [\<lparr>field_name = ''x'', field_type = 253, charsetnr = 33\<rparr>])"
    by (simp add: sample_select_def)
  have a: "accepted (on_execute (sample_select three_rows) (n_exec (sample_select three_rows)))"
    by (simp add: sample_select_def accepted_def)
  from send_query_no_parameters [OF p q, of sample_type] a p q show ?thesis
    by (auto simp: sample_select_def)
qed

subsection \<open>Binding\<close>

text \<open>
  C3, as the spec states it: after \<open>bind\<close> on a statement with a result set the
  completion flag is false. On the prepared one-parameter query it is true after
  \<open>bind\<close>, and \<open>complete()\<close> returns true.
\<close>

theorem bind_marks_complete_counterexample:
  "has_result prepared_query \<and> complete_' (snd (bind [[Some ''7'']] prepared_query)) \<and>
   complete (snd (bind [[Some ''7'']] prepared_query))"
  by (simp add: prepared_query_eq has_result_def bind_def init_binding_def complete_def)

text \<open>
  C3, amended: on a statement with a result set, \<open>bind(parameters)\<close> returns without
  executing (the statement handle is as it was), with the completion flag set to true, the
  bound flag true, the rows-affected counter zero and the input binder at the first row of
  the parameters. The execution is left to the first fetch: when there is a parameter row,
  the first \<open>step\<close> finds the result marked complete, fetches nothing, binds the first
  row and executes.
\<close>

theorem bind_row_producing:
  assumes "has_result s"
  shows "\<exists>s'. bind params s = (Inr (), s') \<and> pStatement_' s' = pStatement_' s \<and>
           complete_' s' \<and> bound_' s' \<and> rowsAffected_' s' = 0 \<and>
           bindingInput_' s' = init_binding params (bindingInput_' s) \<and>
           (params \<noteq> [] \<longrightarrow>
              step s' =
                (case execute (s'\<lparr>bindingInput_' :=
                         \<lparr>binding_rows = params, binding_cursor = 1\<rparr>\<rparr>) of
                   (Inl e, s2) \<Rightarrow> (Inl e, s2)
                 | (Inr u, s2) \<Rightarrow> step s2))"
proof -
  let ?s' = "s\<lparr>rowsAffected_' := 0, bindingInput_' := init_binding params (bindingInput_' s),
               complete_' := True, bound_' := True\<rparr>"
  from assms have b: "bind params s = (Inr (), ?s')"
    by (simp add: bind_def has_result_def Let_def)
  have "step ?s' =
      (case execute (?s'\<lparr>bindingInput_' := \<lparr>binding_rows = params, binding_cursor = 1\<rparr>\<rparr>) of
         (Inl e, s2) \<Rightarrow> (Inl e, s2)
       | (Inr u, s2) \<Rightarrow> step s2)"
    if "params \<noteq> []"
  proof -
    have "fetch_row ?s' = (Inr False, ?s')" by (simp add: fetch_row_def)
    moreover from that have "bind_next_row (bindingInput_' ?s') =
        (True, \<lparr>binding_rows = params, binding_cursor = 1\<rparr>)"
      by (simp add: bind_next_row_def init_binding_def)
    ultimately show ?thesis by (subst step.simps) simp
  qed
  with b show ?thesis by (simp add: init_binding_def)
qed

theorem bind_row_producing_witness:
  "has_result prepared_query \<and>
   map_option n_exec (pStatement_' prepared_query) = Some 0 \<and>
   (\<exists>s'. bind [[Some ''7'']] prepared_query = (Inr (), s') \<and>
      pStatement_' s' = pStatement_' prepared_query \<and> complete_' s' \<and> bound_' s' \<and>
      rowsAffected_' s' = 0 \<and>
      bindingInput_' s' = init_binding [[Some ''7'']] (bindingInput_' prepared_query) \<and>
      fst (step s') = Inr True \<and>
      map_option n_exec (pStatement_' (snd (step s'))) = Some 1)"
proof -
  have h: "has_result prepared_query" by (simp add: prepared_query_eq has_result_def)
  from bind_row_producing [OF h, of "[[Some ''7'']]"]
  obtain s' where s': "bind [[Some ''7'']] prepared_query = (Inr (), s')"
    "pStatement_' s' = pStatement_' prepared_query" "complete_' s'" "bound_' s'"
    "rowsAffected_' s' = 0"
    "bindingInput_' s' = init_binding [[Some ''7'']] (bindingInput_' prepared_query)"
    "step s' = (case execute (s'\<lparr>bindingInput_' :=
                         \<lparr>binding_rows = [[Some ''7'']], binding_cursor = 1\<rparr>\<rparr>) of
                   (Inl e, s2) \<Rightarrow> (Inl e, s2) | (Inr u, s2) \<Rightarrow> step s2)"
    by auto
  have e: "s' = prepared_query\<lparr>rowsAffected_' := 0,
      bindingInput_' := init_binding [[Some ''7'']] (bindingInput_' prepared_query),
      complete_' := True, bound_' := True\<rparr>"
    using s'(1) h by (simp add: bind_def has_result_def Let_def)
  have "map_option n_exec (pStatement_' prepared_query) = Some 0"
    by (simp add: prepared_query_eq sample_query_def sample_select_def)
  moreover have "fst (step s') = Inr True \<and>
      map_option n_exec (pStatement_' (snd (step s'))) = Some 1"
    by (subst s'(7), subst s'(7))
      (simp add: e prepared_query_eq sample_query_def execute_def has_result_def lib_defs
        sample_defs step.simps fetch_row_def init_binding_def)
  ultimately show ?thesis using h s' by auto
qed

text \<open>
  The loop of \<open>bind\<close> on a statement without a result set, from any position of the
  cursor: when the server accepts the next executions, one for each row left, the loop
  executes once per row and adds up the affected-row counts.
\<close>

lemma execute_accepted:
  assumes "pStatement_' s = Some h" and "accepted (on_execute h (n_exec h))" and "\<not> has_result s"
  shows "\<exists>h'. execute s =
           (Inr (), s\<lparr>complete_' := False, pStatement_' := Some h',
                      rowsAffected_' := rowsAffected_' s + reply_affected (on_execute h (n_exec h))\<rparr>) \<and>
           n_exec h' = n_exec h + 1 \<and> on_execute h' = on_execute h"
proof (cases "on_execute h (n_exec h)")
  case (ExecFailed msg code)
  with assms(2) show ?thesis by (simp add: accepted_def)
next
  case (ExecDone a rows)
  let ?h' = "h\<lparr>n_exec := n_exec h + 1, affected_rows := a, pending := rows\<rparr>"
  from ExecDone assms(1,3) have "execute s =
      (Inr (), s\<lparr>complete_' := False, pStatement_' := Some ?h',
         rowsAffected_' := rowsAffected_' s + reply_affected (on_execute h (n_exec h))\<rparr>)"
    by (simp add: execute_def mysql_stmt_execute_def mysql_stmt_affected_rows_def
        mysql_stmt_store_result_def has_result_def reply_affected_def)
  moreover have "n_exec ?h' = n_exec h + 1" and "on_execute ?h' = on_execute h" by simp_all
  ultimately show ?thesis by blast
qed

lemma bind_loop_accepted:
  assumes "rows_to_bind s = n" and "pStatement_' s = Some h" and "\<not> has_result s"
    and "\<forall>k<n. accepted (on_execute h (n_exec h + k))"
  shows "\<exists>s' h'. bind_loop s = (Inr (), s') \<and> pStatement_' s' = Some h' \<and>
           n_exec h' = n_exec h + n \<and>
           rowsAffected_' s' =
             rowsAffected_' s + (\<Sum>k<n. reply_affected (on_execute h (n_exec h + k))) \<and>
           bound_' s' = bound_' s"
  using assms
proof (induction n arbitrary: s h)
  case 0
  then have "bind_next_row (bindingInput_' s) = (False, bindingInput_' s)"
    by (simp add: bind_next_row_def rows_to_bind_def)
  with 0 show ?case by (simp add: bind_loop.simps)
next
  case (Suc n)
  let ?b = "(bindingInput_' s)\<lparr>binding_cursor := Suc (binding_cursor (bindingInput_' s))\<rparr>"
  let ?s0 = "s\<lparr>bindingInput_' := ?b\<rparr>"
  from Suc.prems(1) have nx: "bind_next_row (bindingInput_' s) = (True, ?b)"
    by (simp add: bind_next_row_def rows_to_bind_def)
  from Suc.prems have acc0: "accepted (on_execute h (n_exec h))" by force
  from Suc.prems have "pStatement_' ?s0 = Some h" and "\<not> has_result ?s0"
    by (simp_all add: has_result_def)
  from execute_accepted [OF this(1) acc0 this(2)]
  obtain h1 where ex: "execute ?s0 =
        (Inr (), ?s0\<lparr>complete_' := False, pStatement_' := Some h1,
           rowsAffected_' := rowsAffected_' ?s0 + reply_affected (on_execute h (n_exec h))\<rparr>)"
    and h1: "n_exec h1 = n_exec h + 1" "on_execute h1 = on_execute h"
    by blast
  let ?s1 = "?s0\<lparr>complete_' := False, pStatement_' := Some h1,
           rowsAffected_' := rowsAffected_' ?s0 + reply_affected (on_execute h (n_exec h))\<rparr>"
  from Suc.prems(1) have r1: "rows_to_bind ?s1 = n" by (simp add: rows_to_bind_def)
  have p1: "pStatement_' ?s1 = Some h1" by simp
  from Suc.prems(3) have nr1: "\<not> has_result ?s1" by (simp add: has_result_def)
  from Suc.prems(4) have "\<forall>k<n. accepted (on_execute h (n_exec h + Suc k))" by auto
  with h1 have acc1: "\<forall>k<n. accepted (on_execute h1 (n_exec h1 + k))" by simp
  from Suc.IH [OF r1 p1 nr1 acc1]
  obtain s' h' where loop: "bind_loop ?s1 = (Inr (), s')" and s': "pStatement_' s' = Some h'"
    "n_exec h' = n_exec h1 + n"
    "rowsAffected_' s' =
       rowsAffected_' ?s1 + (\<Sum>k<n. reply_affected (on_execute h1 (n_exec h1 + k)))"
    "bound_' s' = bound_' ?s1"
    by blast
  have "bind_loop s = bind_loop ?s1"
    by (subst bind_loop.simps) (simp add: nx ex)
  moreover have "rowsAffected_' s' =
      rowsAffected_' s + (\<Sum>k<Suc n. reply_affected (on_execute h (n_exec h + k)))"
    using s'(3) h1 by (simp add: sum.lessThan_Suc_shift add.assoc del: sum.lessThan_Suc)
  ultimately show ?case using loop s' h1 by simp
qed

lemma unat_sum_words:
  fixes f :: "nat \<Rightarrow> 64 word"
  shows "(\<Sum>k<n. unat (f k)) < 2 ^ 64 \<Longrightarrow> unat (\<Sum>k<n. f k) = (\<Sum>k<n. unat (f k))"
proof (induction n)
  case 0
  then show ?case by simp
next
  case (Suc n)
  then have "unat (\<Sum>k<n. f k) = (\<Sum>k<n. unat (f k))" by simp
  with Suc.prems show ?case by (simp add: unat_word_ariths)
qed

text \<open>
  C5, as the spec states it: \<open>bind()\<close> of a table of R rows triggers exactly R
  executions, and \<open>rows_affected()\<close> is then the sum of the affected-row counts. With
  three rows, on a statement whose second execution the server rejects, \<open>bind()\<close>
  raises the server's error after two executions, and \<open>rows_affected()\<close> is the "not
  available" sentinel.
\<close>

theorem bind_rejected_counterexample:
  "\<not> has_result rejected_insert \<and> length three_params = 3 \<and>
   fst (bind three_params rejected_insert) = Inl (Stop ''Duplicate entry [1062]'') \<and>
   map_option n_exec (pStatement_' (snd (bind three_params rejected_insert))) = Some 2 \<and>
   rows_affected (snd (bind three_params rejected_insert)) = NA_INTEGER"
  by (simp add: rejected_insert_eq has_result_def bind_def bind_loop.simps bind_next_row_def
      init_binding_def execute_def throw_error_def Let_def lib_defs sample_defs
      sample_rejecting_def three_params_def rows_affected_def format_int_def digits10.simps)

text \<open>
  C5, amended: on a statement without a result set, if the server accepts each of the R
  executions, \<open>bind()\<close> of a parameter table of R rows resets the rows-affected counter,
  triggers exactly R executions and returns with the bound flag set and the counter equal
  to the sum of the affected-row counts of these executions; \<open>rows_affected()\<close> then
  returns that sum, as long as it is below \<open>2^31\<close>.
\<close>

theorem bind_without_result:
  assumes "\<not> has_result s" and "pStatement_' s = Some h"
    and "\<forall>k<length params. accepted (on_execute h (n_exec h + k))"
  shows "\<exists>s' h'. bind params s = (Inr (), s') \<and> pStatement_' s' = Some h' \<and>
           n_exec h' = n_exec h + length params \<and> bound_' s' \<and>
           rowsAffected_' s' = (\<Sum>k<length params. reply_affected (on_execute h (n_exec h + k))) \<and>
           ((\<Sum>k<length params. unat (reply_affected (on_execute h (n_exec h + k)))) < 2 ^ 31 \<longrightarrow>
              rows_affected s' =
                int (\<Sum>k<length params. unat (reply_affected (on_execute h (n_exec h + k)))))"
proof -
  let ?s2 = "s\<lparr>rowsAffected_' := 0, bindingInput_' := init_binding params (bindingInput_' s)\<rparr>"
  have r: "rows_to_bind ?s2 = length params" by (simp add: rows_to_bind_def init_binding_def)
  from assms have p: "pStatement_' ?s2 = Some h" and nr: "\<not> has_result ?s2"
    by (simp_all add: has_result_def)
  from bind_loop_accepted [OF r p nr assms(3)]
  obtain s3 h' where loop: "bind_loop ?s2 = (Inr (), s3)" and s3: "pStatement_' s3 = Some h'"
    "n_exec h' = n_exec h + length params"
    "rowsAffected_' s3 = (\<Sum>k<length params. reply_affected (on_execute h (n_exec h + k)))"
    by auto
  let ?s' = "s3\<lparr>bound_' := True\<rparr>"
  from nr loop have b: "bind params s = (Inr (), ?s')" by (simp add: bind_def Let_def)
  have "rows_affected ?s' =
      int (\<Sum>k<length params. unat (reply_affected (on_execute h (n_exec h + k))))"
    if lt: "(\<Sum>k<length params. unat (reply_affected (on_execute h (n_exec h + k)))) < 2 ^ 31"
  proof -
    from lt have "(\<Sum>k<length params. unat (reply_affected (on_execute h (n_exec h + k)))) < 2 ^ 64"
      by (rule less_trans) simp
    from unat_sum_words [OF this] s3(3)
    have "unat (rowsAffected_' ?s') =
        (\<Sum>k<length params. unat (reply_affected (on_execute h (n_exec h + k))))"
      by simp
    moreover from this lt have "sint (ucast (rowsAffected_' ?s') :: 32 word) = int (unat (rowsAffected_' ?s'))"
      by (intro cast_counter) simp
    moreover have "rows_affected ?s' = sint (ucast (rowsAffected_' ?s') :: 32 word)"
      by (simp add: rows_affected_def)
    ultimately show ?thesis by (simp only:)
  qed
  with b s3 show ?thesis by simp
qed

theorem bind_without_result_witness:
  "\<not> has_result prepared_insert \<and> length three_params = 3 \<and>
   fst (bind three_params prepared_insert) = Inr () \<and>
   map_option n_exec (pStatement_' (snd (bind three_params prepared_insert))) = Some 3 \<and>
   bound_' (snd (bind three_params prepared_insert)) \<and>
   rowsAffected_' (snd (bind three_params prepared_insert)) = 6 \<and>
   rows_affected (snd (bind three_params prepared_insert)) = 6"
proof -
  let ?h = "sample_insert\<lparr>param_count := 1\<rparr>"
  have nr: "\<not> has_result prepared_insert" and p: "pStatement_' prepared_insert = Some ?h"
    by (simp_all add: prepared_insert_eq has_result_def new_result_def)
  have acc: "\<forall>k<length three_params. accepted (on_execute ?h (n_exec ?h + k))"
    by (simp add: sample_insert_def accepted_def)
  have sums: "(\<Sum>k<length three_params. reply_affected (on_execute ?h (n_exec ?h + k))) = 6"
    "(\<Sum>k<length three_params. unat (reply_affected (on_execute ?h (n_exec ?h + k)))) = 6"
    by (simp_all add: three_params_def sample_insert_def reply_affected_def lessThan_nat_numeral
        lessThan_Suc)
  from bind_without_result [OF nr p acc, unfolded sums]
  obtain s' h' where "bind three_params prepared_insert = (Inr (), s')"
    and "pStatement_' s' = Some h'" and "n_exec h' = n_exec ?h + length three_params"
    and "bound_' s'" and "rowsAffected_' s' = 6"
    and "(6::nat) < 2 ^ 31 \<longrightarrow> rows_affected s' = int 6"
    by blast
  with nr show ?thesis by (simp add: sample_insert_def three_params_def)
qed


subsection \<open>Fetching one row\<close>

text \<open>
  C7: on an open statement, \<open>fetch_row()\<close> ends in one of three ways. A full or a
  truncated row is in the buffers and it returns true; the library reports an error and it
  raises the server's message with the numeric code; or there are no more rows (the result
  was already complete, or the library reports the end of the data), the result is marked
  complete and it returns false.
\<close>

theorem fetch_row_outcomes:
  assumes "pStatement_' s = Some h"
  shows
    "(\<exists>r rest h'. \<not> complete_' s \<and>
        (pending h = RowReady r # rest \<or> pending h = RowTruncated r # rest) \<and>
        fetch_row s = (Inr True, s\<lparr>pStatement_' := Some h'\<rparr>) \<and>
        buffers h' = r \<and> pending h' = rest) \<or>
     (\<exists>msg code rest h'. \<not> complete_' s \<and> pending h = FetchFailed msg code # rest \<and>
        fetch_row s =
          (Inl (Stop (msg @ '' ['' @ format_int (sint code) @ '']'')),
           s\<lparr>pStatement_' := Some h'\<rparr>)) \<or>
     (\<exists>s'. (complete_' s \<or> pending h = []) \<and> fetch_row s = (Inr False, s') \<and> complete_' s')"
proof (cases "complete_' s")
  case True
  then show ?thesis by (simp add: fetch_row_def)
next
  case False
  show ?thesis
  proof (cases "pending h")
    case Nil
    with False assms show ?thesis
      by (simp add: fetch_row_def mysql_stmt_fetch_def MYSQL_NO_DATA_def
          MYSQL_DATA_TRUNCATED_def)
  next
    case (Cons ev rest)
    with False assms show ?thesis
      by (cases ev) (auto simp: fetch_row_def mysql_stmt_fetch_def MYSQL_NO_DATA_def
          MYSQL_DATA_TRUNCATED_def throw_error_def)
  qed
qed

theorem fetch_row_outcomes_witness:
  "(\<exists>h. pStatement_' selected = Some h) \<and> fst (fetch_row selected) = Inr True \<and>
   (\<exists>h. pStatement_' failing = Some h) \<and> fst (fetch_row failing) = Inl (Stop ''Lost connection [2013]'') \<and>
   (\<exists>h. pStatement_' drained = Some h) \<and> fst (fetch_row drained) = Inr False \<and> complete_' (snd (fetch_row drained))"
proof -
  obtain h1 where h1: "pStatement_' selected = Some h1" by (simp add: selected_eq)
  obtain h2 where h2: "pStatement_' failing = Some h2" by (simp add: failing_def new_result_def)
  obtain h3 where h3: "pStatement_' drained = Some h3" by (simp add: drained_def new_result_def)
  have p1: "pending h1 = three_rows" "\<not> complete_' selected" using h1 by (auto simp add: selected_eq)
  have p2: "pending h2 = [FetchFailed ''Lost connection'' 2013]" "\<not> complete_' failing"
    using h2 by (auto simp add: failing_def new_result_def)
  have p3: "pending h3 = []" using h3 by (auto simp add: drained_def new_result_def sample_select_def)
  have "fst (fetch_row selected) = Inr True"
    using fetch_row_outcomes [OF h1] p1 by (auto simp: three_rows_def)
  moreover have "fst (fetch_row failing) = Inl (Stop ''Lost connection [2013]'')"
    using fetch_row_outcomes [OF h2] p2 by (auto simp: format_int_def digits10.simps)
  moreover have "fst (fetch_row drained) = Inr False \<and> complete_' (snd (fetch_row drained))"
    using fetch_row_outcomes [OF h3] p3 by auto
  ultimately show ?thesis using h1 h2 h3 by simp
qed

subsection \<open>Fetching a table\<close>

text \<open>
  C8: \<open>fetch(n_max)\<close> on a statement that is not bound, or on a result that is not its
  connection's current result, fails with a precondition error and leaves the whole state,
  the statement handle included, as it was.
\<close>

theorem fetch_precondition:
  "(\<not> bound_' s \<longrightarrow>
      fetch n_max s = (Inl (Stop ''Query needs to be bound before fetching''), s)) \<and>
   (bound_' s \<and> \<not> active s \<longrightarrow> fetch n_max s = (Inl (Stop ''Inactive result set''), s))"
  by (simp add: fetch_def)

theorem fetch_precondition_witness:
  "\<not> bound_' prepared_insert \<and>
   fetch 10 prepared_insert =
     (Inl (Stop ''Query needs to be bound before fetching''), prepared_insert) \<and>
   bound_' stale \<and> \<not> active stale \<and>
   fetch 10 stale = (Inl (Stop ''Inactive result set''), stale)"
  using fetch_precondition [of prepared_insert 10] fetch_precondition [of stale 10]
  by (simp add: prepared_insert_eq stale_def selected_eq new_result_def active_def
      is_current_result_def)

text \<open>
  C10: on a bound, active statement with a result set, \<open>fetch(0)\<close> returns the zero-row
  table of the cached column names and types and leaves the state as it was: no row is
  fetched from the library, and the fetched-row counter and the completion flag keep their
  values.
\<close>

theorem fetch_zero:
  assumes "bound_' s" and "active s" and "has_result s"
  shows "fetch 0 s = (Inr (df_create (types_' s) (names_' s) 0), s) \<and>
         df_nrow (df_create (types_' s) (names_' s) 0) = 0 \<and>
         df_names (df_create (types_' s) (names_' s) 0) = names_' s \<and>
         df_types (df_create (types_' s) (names_' s) 0) = types_' s"
  using assms by (simp add: fetch_def df_create_def)

theorem fetch_zero_witness:
  "bound_' selected \<and> active selected \<and> has_result selected \<and>
   fetch 0 selected =
     (Inr \<lparr>df_names = [''x''], df_types = [''string''], df_cols = [[]], df_nrow = 0,
           df_classed = False\<rparr>, selected)"
proof -
  have h: "bound_' selected" "active selected" "has_result selected"
    by (simp_all add: selected_eq active_def is_current_result_def has_result_def)
  have "df_create (types_' selected) (names_' selected) 0 =
      \<lparr>df_names = [''x''], df_types = [''string''], df_cols = [[]], df_nrow = 0,
        df_classed = False\<rparr>"
    by (simp add: selected_eq df_create_def)
  with h fetch_zero [OF h] show ?thesis by simp
qed

lemma rows_left_rowsFetched:
  "rows_left (s\<lparr>rowsFetched_' := x\<rparr>) = rows_left s \<and>
   row_buffers (s\<lparr>rowsFetched_' := x\<rparr>) = row_buffers s"
  by (simp add: rows_left_def current_left_def scheduled_left_def rows_to_bind_def
      row_buffers_def split: option.splits)

lemma fetch_row_False:
  assumes "fetch_row s = (Inr False, s1)"
  shows "current_left s = [] \<and> current_left s1 = [] \<and> scheduled_left s1 = scheduled_left s \<and>
         complete_' s1 \<and> bindingInput_' s1 = bindingInput_' s \<and>
         rowsFetched_' s1 = rowsFetched_' s \<and> nCols_' s1 = nCols_' s"
  using assms
  by (auto simp: fetch_row_def mysql_stmt_fetch_def current_left_def scheduled_left_def
      rows_to_bind_def throw_error_def MYSQL_NO_DATA_def MYSQL_DATA_TRUNCATED_def Let_def
      split: if_splits option.splits list.splits fetch_event.splits)

lemma fetch_row_Inr_True:
  assumes "fetch_row s = (Inr True, s1)"
  shows "current_left s = row_buffers s1 # current_left s1 \<and>
         scheduled_left s1 = scheduled_left s \<and>
         rowsFetched_' s1 = rowsFetched_' s \<and> nCols_' s1 = nCols_' s"
  using assms
  by (auto simp: fetch_row_def mysql_stmt_fetch_def current_left_def scheduled_left_def
      rows_to_bind_def throw_error_def MYSQL_NO_DATA_def MYSQL_DATA_TRUNCATED_def Let_def
      row_buffers_def
      split: if_splits option.splits list.splits fetch_event.splits)

lemma execute_next_row:
  assumes "bind_next_row (bindingInput_' s1) = (True, b)"
    and "execute (s1\<lparr>bindingInput_' := b\<rparr>) = (Inr u, s2)"
  shows "rows_left s2 = scheduled_left s1 \<and> rowsFetched_' s2 = rowsFetched_' s1 \<and>
         nCols_' s2 = nCols_' s1"
proof -
  from assms(2) obtain h where h: "pStatement_' s1 = Some h"
    by (cases "pStatement_' s1") (auto simp: execute_def)
  from assms(2) h obtain a rows where rep: "on_execute h (n_exec h) = ExecDone a rows"
    by (cases "on_execute h (n_exec h)")
      (auto simp: execute_def mysql_stmt_execute_def throw_error_def)
  let ?h2 = "h\<lparr>n_exec := n_exec h + 1, affected_rows := a, pending := rows\<rparr>"
  from assms(2) h rep have s2: "pStatement_' s2 = Some ?h2" "\<not> complete_' s2"
    "bindingInput_' s2 = b" "nCols_' s2 = nCols_' s1" "rowsFetched_' s2 = rowsFetched_' s1"
    by (auto simp: execute_def mysql_stmt_execute_def mysql_stmt_store_result_def Let_def
        split: if_splits)
  from bind_next_row_True [OF assms(1)] s2(3)
  have m: "rows_to_bind s1 = Suc (rows_to_bind s2)" by (auto simp: rows_to_bind_def)
  have "current_left s2 = reply_row_list (on_execute h (n_exec h))"
    using s2 rep by (simp add: current_left_def reply_row_list_def)
  moreover have "scheduled_left s2 =
      concat (map (\<lambda>k. reply_row_list (on_execute h (n_exec h + Suc k))) [0..<rows_to_bind s2])"
    using s2 by (simp add: scheduled_left_def)
  moreover have "scheduled_left s1 =
      reply_row_list (on_execute h (n_exec h)) @
      concat (map (\<lambda>k. reply_row_list (on_execute h (n_exec h + Suc k))) [0..<rows_to_bind s2])"
  proof -
    have "[0..<Suc (rows_to_bind s2)] = 0 # map Suc [0..<rows_to_bind s2]"
      by (simp only: upt_conv_Cons [OF zero_less_Suc] map_Suc_upt)
    then have "map (\<lambda>k. reply_row_list (on_execute h (n_exec h + k))) [0..<Suc (rows_to_bind s2)] =
        reply_row_list (on_execute h (n_exec h)) #
        map (\<lambda>k. reply_row_list (on_execute h (n_exec h + Suc k))) [0..<rows_to_bind s2]"
      by (simp only: list.map map_map comp_def add_0_right)
    with h m show ?thesis by (simp only: scheduled_left_def option.case concat.simps)
  qed
  ultimately show ?thesis using s2(4,5)
    by (simp add: rows_left_def)
qed

text \<open>
  One step of the fetch loop: it either delivers the first of the rows left, in the
  buffers, and counts it, or finds that no row is left and leaves the result exhausted.
\<close>

lemma step_rows_left:
  "step s = (Inr ok, s') \<Longrightarrow>
     (if ok then rows_left s = row_buffers s' # rows_left s' \<and>
                 rowsFetched_' s' = rowsFetched_' s + 1
      else rows_left s = [] \<and> exhausted s' \<and> rowsFetched_' s' = rowsFetched_' s) \<and>
     nCols_' s' = nCols_' s"
proof (induction s rule: step.induct)
  case (1 s)
  obtain r s1 where fr: "fetch_row s = (r, s1)" by (cases "fetch_row s")
  show ?case
  proof (cases r)
    case (Inl e)
    with fr "1.prems" show ?thesis by (simp add: step.simps)
  next
    case (Inr found)
    show ?thesis
    proof (cases found)
      case True
      with Inr fr "1.prems" have "ok" and "s' = s1\<lparr>rowsFetched_' := rowsFetched_' s1 + 1\<rparr>"
        by (simp_all add: step.simps)
      moreover from fetch_row_Inr_True [of s s1] fr Inr True
      have "rows_left s = row_buffers s1 # rows_left s1" "nCols_' s1 = nCols_' s"
        "rowsFetched_' s1 = rowsFetched_' s"
        by (simp_all add: rows_left_def)
      ultimately show ?thesis by (simp add: rows_left_rowsFetched)
    next
      case False
      with fr Inr have frF: "fetch_row s = (Inr False, s1)" by simp
      note f = fetch_row_False [OF frF]
      obtain nb b where nx: "bind_next_row (bindingInput_' s1) = (nb, b)"
        by (cases "bind_next_row (bindingInput_' s1)")
      show ?thesis
      proof (cases nb)
        case nbF: False
        with frF nx "1.prems" have "\<not> ok" and s': "s' = s1\<lparr>bindingInput_' := b\<rparr>"
          by (simp_all add: step.simps)
        from nx nbF bind_next_row_False [of "bindingInput_' s1" b]
        have b: "b = bindingInput_' s1" "rows_to_bind s1 = 0" by (simp_all add: rows_to_bind_def)
        then have "scheduled_left s1 = []" by (simp add: scheduled_left_def split: option.splits)
        with f b s' \<open>\<not> ok\<close> show ?thesis
          by (simp add: rows_left_def exhausted_def rows_to_bind_def)
      next
        case nbT: True
        obtain r2 s2 where ex: "execute (s1\<lparr>bindingInput_' := b\<rparr>) = (r2, s2)"
          by (cases "execute (s1\<lparr>bindingInput_' := b\<rparr>)")
        show ?thesis
        proof (cases r2)
          case e: (Inl e)
          with frF nx nbT ex "1.prems" show ?thesis by (simp add: step.simps)
        next
          case u: (Inr u)
          with frF nx nbT ex "1.prems" have st: "step s2 = (Inr ok, s')"
            by (simp add: step.simps)
          have ih: "(if ok then rows_left s2 = row_buffers s' # rows_left s' \<and>
                 rowsFetched_' s' = rowsFetched_' s2 + 1
              else rows_left s2 = [] \<and> exhausted s' \<and> rowsFetched_' s' = rowsFetched_' s2) \<and>
              nCols_' s' = nCols_' s2"
            using "1.IH" [of r s1 found nb b r2 s2 u] fr Inr False nx nbT ex u st by simp
          from nx nbT ex u have "rows_left s2 = scheduled_left s1 \<and>
              rowsFetched_' s2 = rowsFetched_' s1 \<and> nCols_' s2 = nCols_' s1"
            by (intro execute_next_row) simp_all
          with f have "rows_left s2 = rows_left s" "nCols_' s2 = nCols_' s"
            "rowsFetched_' s2 = rowsFetched_' s"
            by (simp_all add: rows_left_def)
          with ih show ?thesis by (cases ok) simp_all
        qed
      qed
    qed
  qed
qed

lemma step_rows:
  "step s = (Inr ok, s') \<Longrightarrow>
     (if ok then rows_available s = Suc (rows_available s') \<and>
                 rowsFetched_' s' = rowsFetched_' s + 1
      else rows_available s = 0 \<and> exhausted s' \<and> rowsFetched_' s' = rowsFetched_' s)"
  using step_rows_left [of s ok s'] by (cases ok) (simp_all add: rows_available_def)

text \<open>Creating, growing, trimming and writing a row keep the table's contents.\<close>

lemma table_holds_create: "table_holds (df_create types names n) nc [] (nat n)"
proof -
  have "column_of nc [] (nat n) = (\<lambda>j. replicate (nat n) None)"
    by (rule ext) (simp add: column_of_def)
  then show ?thesis
    by (simp add: table_holds_def df_create_def map_replicate_const)
qed

lemma resize_column:
  assumes "length rs \<le> n" and "length rs \<le> m"
  shows "take m (column_of nc rs n j) @ replicate (m - length (column_of nc rs n j)) None =
         column_of nc rs m j"
proof -
  from assms(1) have len: "length (column_of nc rs n j) = n" by (simp add: column_of_def)
  from assms have "take m (column_of nc rs n j) =
      map (\<lambda>r. cell_of nc r j) rs @ replicate (min (m - length rs) (n - length rs)) None"
    by (simp add: column_of_def)
  moreover from assms have "min (m - length rs) (n - length rs) + (m - n) = m - length rs"
    by (simp add: min_def)
  ultimately show ?thesis
    by (simp add: len column_of_def flip: replicate_add)
qed

lemma table_holds_resize:
  assumes "table_holds df nc rs n" and "length rs \<le> n" and "length rs \<le> nat m"
  shows "table_holds (df_resize df m) nc rs (nat m)"
proof -
  from assms(1) have c: "df_cols df = map (column_of nc rs n) [0..<length (df_cols df)]"
    by (simp add: table_holds_def)
  have "df_cols (df_resize df m) =
      map (\<lambda>col. take (nat m) col @ replicate (nat m - length col) None) (df_cols df)"
    by (simp add: df_resize_def)
  also have "\<dots> = map (\<lambda>j. take (nat m) (column_of nc rs n j) @
      replicate (nat m - length (column_of nc rs n j)) None) [0..<length (df_cols df)]"
    by (subst c) (simp add: comp_def)
  also have "\<dots> = map (column_of nc rs (nat m)) [0..<length (df_cols df)]"
    by (simp add: resize_column [OF assms(2,3)])
  finally show ?thesis by (simp add: table_holds_def df_resize_def)
qed

lemma df_resize_frame:
  "df_names (df_resize df n) = df_names df \<and> df_types (df_resize df n) = df_types df \<and>
   length (df_cols (df_resize df n)) = length (df_cols df)"
  by (simp add: df_resize_def)

lemma copy_row_frame:
  "df_names (copy_row s df i) = df_names df \<and> df_types (copy_row s df i) = df_types df \<and>
   length (df_cols (copy_row s df i)) = length (df_cols df)"
  by (simp add: copy_row_def)

lemma enumerate_map_upt: "enumerate 0 (map f [0..<c]) = map (\<lambda>j. (j, f j)) [0..<c]"
  by (simp add: enumerate_eq_zip zip_map2 zip_same_conv_map)

lemma write_column:
  assumes "length rs < n"
  shows "(if int j < nc then set_list_value bufs (column_of nc rs n j) (length rs) j
          else column_of nc rs n j) = column_of nc (rs @ [bufs]) n j"
proof -
  from assms obtain d where d: "n - length rs = Suc d" and d': "n - Suc (length rs) = d"
    by (cases "n - length rs") simp_all
  show ?thesis
    by (simp add: column_of_def set_list_value_def cell_of_def d d' list_update_append)
qed

lemma table_holds_copy_row:
  assumes "table_holds df nc rs n" and "length rs < n" and "nCols_' s1 = nc"
  shows "table_holds (copy_row s1 df (int (length rs))) nc (rs @ [row_buffers s1]) n"
proof -
  from assms(1) have c: "df_cols df = map (column_of nc rs n) [0..<length (df_cols df)]"
    and r: "df_nrow df = n"
    by (simp_all add: table_holds_def)
  have "df_cols (copy_row s1 df (int (length rs))) =
      map (\<lambda>(j, col). if int j < nc then set_list_value (row_buffers s1) col (length rs) j else col)
        (enumerate 0 (df_cols df))"
    by (auto simp: copy_row_def assms(3))
  also have "\<dots> = map (\<lambda>j. if int j < nc
        then set_list_value (row_buffers s1) (column_of nc rs n j) (length rs) j
        else column_of nc rs n j) [0..<length (df_cols df)]"
    by (subst c) (simp add: enumerate_map_upt comp_def)
  also have "\<dots> = map (column_of nc (rs @ [row_buffers s1]) n) [0..<length (df_cols df)]"
    by (simp only: write_column [OF assms(2)])
  finally show ?thesis using r by (simp add: table_holds_def copy_row_def)
qed

lemma fetch_loop_unfold:
  "fetch_loop n_max i n out s =
     (if i \<ge> n \<and> n_max > 0 then (Inr (i, n, out), s)
      else
        (case step s of
           (Inl e, s1) \<Rightarrow> (Inl e, s1)
         | (Inr False, s1) \<Rightarrow> (Inr (i, n, out), s1)
         | (Inr True, s1) \<Rightarrow>
             if i \<ge> n \<and> n * 2 > INT_MAX then (Inl SignedOverflow, s1)
             else if (i + 1) mod 1000 = 0 \<and> user_interrupt s1 then (Inl Interrupted, s1)
             else fetch_loop n_max (i + 1) (if i \<ge> n then n * 2 else n)
                    (copy_row s1
                       (if i \<ge> n then df_resize out (if i \<ge> n then n * 2 else n) else out) i)
                    s1))"
  by (subst fetch_loop.simps) (simp only: Let_def)

lemma fetch_loop_cases:
  assumes "fetch_loop n_max i n out s = (Inr (i', n', out'), s')"
  obtains
    (limit) "n \<le> i" and "0 < n_max" and "i' = i" and "n' = n" and "out' = out" and "s' = s"
  | (drained) "\<not> (n \<le> i \<and> 0 < n_max)" and "step s = (Inr False, s')"
      and "i' = i" and "n' = n" and "out' = out"
  | (more) s1 where "\<not> (n \<le> i \<and> 0 < n_max)" and "step s = (Inr True, s1)"
      and "\<not> (n \<le> i \<and> INT_MAX < n * 2)"
      and "fetch_loop n_max (i + 1) (if n \<le> i then n * 2 else n)
             (copy_row s1 (if n \<le> i then df_resize out (n * 2) else out) i) s1 =
           (Inr (i', n', out'), s')"
proof (cases "n \<le> i \<and> 0 < n_max")
  case True
  have "fetch_loop n_max i n out s = (Inr (i, n, out), s)"
    by (subst fetch_loop_unfold) (simp only: True if_True simp_thms)
  from this [symmetric] assms have "(Inr (i, n, out) :: error + _, s) = (Inr (i', n', out'), s')"
    by (rule trans)
  then have "i' = i" and "n' = n" and "out' = out" and "s' = s"
    by (auto simp only: prod.inject sum.inject)
  with True show ?thesis by (intro limit) (simp_all only: simp_thms)
next
  case False
  obtain r s1 where st: "step s = (r, s1)" by (cases "step s")
  have eq: "fetch_loop n_max i n out s =
    (case r of
        Inl e \<Rightarrow> (Inl e, s1)
      | Inr False \<Rightarrow> (Inr (i, n, out), s1)
      | Inr True \<Rightarrow>
          if i \<ge> n \<and> n * 2 > INT_MAX then (Inl SignedOverflow, s1)
          else if (i + 1) mod 1000 = 0 \<and> user_interrupt s1 then (Inl Interrupted, s1)
          else fetch_loop n_max (i + 1) (if i \<ge> n then n * 2 else n)
                 (copy_row s1
                    (if i \<ge> n then df_resize out (if i \<ge> n then n * 2 else n) else out) i)
                 s1)"
    by (subst fetch_loop_unfold) (simp only: False if_False st prod.case)
  show ?thesis
  proof (cases r)
    case (Inl e)
    with eq assms show ?thesis by (simp only: sum.case) simp
  next
    case (Inr ok)
    show ?thesis
    proof (cases ok)
      case ok: False
      from eq have "fetch_loop n_max i n out s = (Inr (i, n, out), s1)"
        by (simp only: Inr ok sum.case bool.case)
      from this [symmetric] assms have "(Inr (i, n, out) :: error + _, s1) = (Inr (i', n', out'), s')"
        by (rule trans)
      then have "i' = i" and "n' = n" and "out' = out" and "s' = s1"
        by (auto simp only: prod.inject sum.inject)
      with False st Inr ok show ?thesis by (intro drained) (simp_all only: simp_thms)
    next
      case ok: True
      from eq have eq2: "fetch_loop n_max i n out s =
        (if i \<ge> n \<and> n * 2 > INT_MAX then (Inl SignedOverflow, s1)
          else if (i + 1) mod 1000 = 0 \<and> user_interrupt s1 then (Inl Interrupted, s1)
          else fetch_loop n_max (i + 1) (if i \<ge> n then n * 2 else n)
                 (copy_row s1
                    (if i \<ge> n then df_resize out (if i \<ge> n then n * 2 else n) else out) i)
                 s1)"
        by (simp only: Inr ok sum.case bool.case)
      have a: "\<not> (n \<le> i \<and> INT_MAX < n * 2)"
      proof
        assume c: "n \<le> i \<and> INT_MAX < n * 2"
        from eq2 have "fetch_loop n_max i n out s = (Inl SignedOverflow, s1)"
          by (simp only: c if_True simp_thms)
        with assms show False by simp
      qed
      have b: "\<not> ((i + 1) mod 1000 = 0 \<and> user_interrupt s1)"
      proof
        assume c: "(i + 1) mod 1000 = 0 \<and> user_interrupt s1"
        from eq2 have "fetch_loop n_max i n out s = (Inl Interrupted, s1)"
          by (simp only: a c if_True if_False simp_thms)
        with assms show False by simp
      qed
      from eq2 have "fetch_loop n_max i n out s =
          fetch_loop n_max (i + 1) (if i \<ge> n then n * 2 else n)
            (copy_row s1
               (if i \<ge> n then df_resize out (if i \<ge> n then n * 2 else n) else out) i) s1"
        by (simp only: a b if_False)
      also have "(if i \<ge> n then df_resize out (if i \<ge> n then n * 2 else n) else out) =
          (if n \<le> i then df_resize out (n * 2) else out)"
        by (cases "n \<le> i") simp_all
      finally have "fetch_loop n_max (i + 1) (if n \<le> i then n * 2 else n)
             (copy_row s1 (if n \<le> i then df_resize out (n * 2) else out) i) s1 =
           (Inr (i', n', out'), s')"
        using assms by simp
      with False st Inr ok a show ?thesis by (intro more [of s1]) (simp_all only: simp_thms)
    qed
  qed
qed

lemma fetch_loop_count:
  assumes "rows_available s = k"
    and "fetch_loop n_max i n out s = (Inr (i', n', out'), s')"
    and "0 \<le> i" and "i \<le> n" and "0 < n"
  shows "i \<le> i' \<and> i' \<le> n' \<and> 0 < n' \<and>
         rowsFetched_' s' = rowsFetched_' s + word_of_int (i' - i) \<and>
         (if 0 < n_max
          then n' = n \<and> i' = min n (i + int k) \<and> (i' < n \<longrightarrow> exhausted s')
          else i' = i + int k \<and> exhausted s')"
  using assms
proof (induction k arbitrary: i n out s)
  case 0
  from "0.prems"(2) show ?case
  proof (cases rule: fetch_loop_cases)
    case limit
    with "0.prems" show ?thesis by simp
  next
    case drained
    with step_rows [OF drained(2)] "0.prems" show ?thesis by simp
  next
    case (more s1)
    with step_rows [OF more(2)] "0.prems" show ?thesis by simp
  qed
next
  case (Suc k)
  from Suc.prems(2) show ?case
  proof (cases rule: fetch_loop_cases)
    case limit
    with Suc.prems show ?thesis by simp
  next
    case drained
    with step_rows [OF drained(2)] Suc.prems show ?thesis by simp
  next
    case (more s1)
    let ?n1 = "if n \<le> i then n * 2 else n"
    from step_rows [OF more(2)] Suc.prems(1)
    have k: "rows_available s1 = k" and rf: "rowsFetched_' s1 = rowsFetched_' s + 1" by simp_all
    from Suc.prems(3-5) have b: "0 \<le> i + 1" "i + 1 \<le> ?n1" "0 < ?n1" by auto
    note ih = Suc.IH [OF k more(4) b]
    from ih rf have "rowsFetched_' s' = rowsFetched_' s + word_of_int (i' - i)"
      by (simp add: algebra_simps)
    moreover from ih have "i \<le> i'" "i' \<le> n'" "0 < n'" by simp_all
    moreover have "n' = n \<and> i' = min n (i + int (Suc k)) \<and> (i' < n \<longrightarrow> exhausted s')"
      if "0 < n_max"
    proof -
      from that more(1) have "i < n" by simp
      with ih that show ?thesis by (simp add: add.assoc)
    qed
    moreover have "i' = i + int (Suc k) \<and> exhausted s'" if "\<not> 0 < n_max"
      using ih that by simp
    ultimately show ?thesis by simp
  qed
qed

lemma fetch_loop_content:
  assumes "rows_available s = k"
    and "fetch_loop n_max i n out s = (Inr (i', n', out'), s')"
    and "table_holds out nc rs (nat n)" and "i = int (length rs)" and "i \<le> n" and "0 < n"
    and "nCols_' s = nc"
  shows "\<exists>rs'. table_holds out' nc (rs @ rs') (nat n') \<and> i' = i + int (length rs') \<and>
           rs' = take (length rs') (rows_left s) \<and> df_names out' = df_names out \<and>
           df_types out' = df_types out \<and> length (df_cols out') = length (df_cols out)"
  using assms
proof (induction k arbitrary: i n out s rs)
  case 0
  from "0.prems"(2) show ?case
  proof (cases rule: fetch_loop_cases)
    case limit
    with "0.prems" show ?thesis by simp
  next
    case drained
    with "0.prems" show ?thesis by simp
  next
    case (more s1)
    with step_rows [OF more(2)] "0.prems" show ?thesis by simp
  qed
next
  case (Suc k)
  from Suc.prems(2) show ?case
  proof (cases rule: fetch_loop_cases)
    case limit
    with Suc.prems show ?thesis by simp
  next
    case drained
    with Suc.prems show ?thesis by simp
  next
    case (more s1)
    let ?n1 = "if n \<le> i then n * 2 else n"
    let ?out1 = "if n \<le> i then df_resize out (n * 2) else out"
    let ?rs1 = "rs @ [row_buffers s1]"
    from step_rows [OF more(2)] Suc.prems(1) have k: "rows_available s1 = k" by simp
    from step_rows_left [OF more(2)] Suc.prems(7)
    have left: "rows_left s = row_buffers s1 # rows_left s1" and nc: "nCols_' s1 = nc"
      by simp_all
    from Suc.prems(4-6) have "int (length rs) \<le> n" "int (length rs) < ?n1" by auto
    with Suc.prems(6) have len: "length rs \<le> nat n" "length rs < nat ?n1"
      by (simp_all add: zless_nat_eq_int_zless le_nat_iff)
    have "table_holds ?out1 nc rs (nat ?n1)"
    proof (cases "n \<le> i")
      case True
      with Suc.prems(3) len table_holds_resize [of out nc rs "nat n" "n * 2"]
      show ?thesis by simp
    next
      case False
      with Suc.prems(3) show ?thesis by simp
    qed
    from table_holds_copy_row [OF this len(2) nc] Suc.prems(4)
    have t1: "table_holds (copy_row s1 ?out1 i) nc ?rs1 (nat ?n1)" by simp
    from Suc.prems(4-6) have b: "i + 1 = int (length ?rs1)" "i + 1 \<le> ?n1" "0 < ?n1" by auto
    from Suc.IH [OF k more(4) t1 b nc]
    obtain rs'' where r: "table_holds out' nc (?rs1 @ rs'') (nat n')"
      "i' = i + 1 + int (length rs'')" "rs'' = take (length rs'') (rows_left s1)"
      "df_names out' = df_names out" "df_types out' = df_types out"
      "length (df_cols out') = length (df_cols out)"
      by (auto simp: copy_row_frame df_resize_frame)
    let ?rs' = "row_buffers s1 # rs''"
    from r left have "table_holds out' nc (rs @ ?rs') (nat n')" "i' = i + int (length ?rs')"
      "?rs' = take (length ?rs') (rows_left s)"
      by simp_all
    with r(4-6) show ?thesis by blast
  qed
qed

lemma fetch_unfold:
  assumes "bound_' s" and "active s" and "has_result s" and "n_max \<noteq> 0"
  shows "fetch n_max s =
     (case fetch_loop n_max 0 (if n_max < 0 then 100 else n_max)
             (df_create (types_' s) (names_' s) (if n_max < 0 then 100 else n_max)) s of
        (Inl e, s1) \<Rightarrow> (Inl e, s1)
      | (Inr (i, n1, out1), s1) \<Rightarrow>
          (Inr (df_s3 (if i < n1 then df_resize out1 i else out1) (types_' s1)), s1))"
  using assms by (cases "n_max < 0") (simp_all add: fetch_def Let_def split: prod.splits sum.splits)

lemma fetch_rows_returned:
  assumes "bound_' s" and "active s" and "has_result s" and "fetch n_max s = (Inr tbl, s')"
  shows "(0 \<le> n_max \<longrightarrow>
            df_nrow tbl = min (nat n_max) (rows_available s) \<and>
            (int (df_nrow tbl) < n_max \<longrightarrow> exhausted s')) \<and>
         (n_max < 0 \<longrightarrow> df_nrow tbl = rows_available s \<and> exhausted s') \<and>
         df_cols tbl =
           map (\<lambda>j. map (\<lambda>r. cell_of (nCols_' s) r j) (take (df_nrow tbl) (rows_left s)))
             [0..<length (types_' s)] \<and>
         list_all (\<lambda>col. length col = df_nrow tbl) (df_cols tbl) \<and>
         rowsFetched_' s' = rowsFetched_' s + word_of_nat (df_nrow tbl) \<and>
         df_names tbl = names_' s \<and> df_types tbl = types_' s"
proof (cases "n_max = 0")
  case True
  with assms have "tbl = df_create (types_' s) (names_' s) 0" and "s' = s"
    by (auto simp: fetch_def)
  with True show ?thesis by (simp add: df_create_def list_all_iff map_replicate_const)
next
  case False
  define n where "n = (if n_max < 0 then 100 else n_max)"
  define out where "out = df_create (types_' s) (names_' s) n"
  from False have n: "0 < n" by (simp add: n_def)
  obtain r s1 where fl: "fetch_loop n_max 0 n out s = (r, s1)"
    by (cases "fetch_loop n_max 0 n out s")
  have "fetch n_max s = (case fetch_loop n_max 0 n out s of
        (Inl e, s1) \<Rightarrow> (Inl e, s1)
      | (Inr (i, n1, out1), s1) \<Rightarrow>
          (Inr (df_s3 (if i < n1 then df_resize out1 i else out1) (types_' s1)), s1))"
    unfolding n_def out_def using assms(1-3) False by (rule fetch_unfold)
  with assms(4) fl have f: "(case (r, s1) of
        (Inl e, s1) \<Rightarrow> (Inl e, s1)
      | (Inr (i, n1, out1), s1) \<Rightarrow>
          (Inr (df_s3 (if i < n1 then df_resize out1 i else out1) (types_' s1)), s1)) =
      (Inr tbl, s')"
    by (simp only:)
  then obtain i n1 out1 where r: "r = Inr (i, n1, out1)"
    by (cases r) auto
  with f have tbl: "tbl = df_s3 (if i < n1 then df_resize out1 i else out1) (types_' s1)"
    and s': "s' = s1" by auto
  from fl r have loop: "fetch_loop n_max 0 n out s = (Inr (i, n1, out1), s')"
    by (simp add: s')
  from fetch_loop_count [OF refl loop _ _ n] n
  have c: "0 \<le> i" "i \<le> n1" "0 < n1"
    "rowsFetched_' s' = rowsFetched_' s + word_of_int i"
    "if 0 < n_max then n1 = n \<and> i = min n (int (rows_available s)) \<and> (i < n \<longrightarrow> exhausted s')
     else i = int (rows_available s) \<and> exhausted s'"
    by simp_all
  have "table_holds out (nCols_' s) [] (nat n)" by (simp add: out_def table_holds_create)
  from fetch_loop_content [OF refl loop this _ _ n refl] n
  obtain rs where t: "table_holds out1 (nCols_' s) rs (nat n1)" and i: "i = int (length rs)"
    and rs: "rs = take (length rs) (rows_left s)"
    and fr: "df_names out1 = names_' s" "df_types out1 = types_' s"
      "length (df_cols out1) = length (types_' s)"
    by (auto simp: out_def df_create_def)
  have t2: "table_holds (if i < n1 then df_resize out1 i else out1) (nCols_' s) rs (length rs)"
  proof (cases "i < n1")
    case True
    with t i c(2) table_holds_resize [of out1 "nCols_' s" rs "nat n1" i] show ?thesis by simp
  next
    case False
    with c(2) have "i = n1" by simp
    with t i False show ?thesis by simp
  qed
  have nrow: "df_nrow tbl = length rs"
    using t2 by (simp add: tbl df_s3_def table_holds_def)
  have "length (df_cols tbl) = length (types_' s)"
    using fr(3) by (simp add: tbl df_s3_def df_resize_frame)
  with t2 have "df_cols tbl = map (column_of (nCols_' s) rs (length rs)) [0..<length (types_' s)]"
    by (simp add: tbl df_s3_def table_holds_def)
  with rs nrow have cols: "df_cols tbl =
      map (\<lambda>j. map (\<lambda>r. cell_of (nCols_' s) r j) (take (df_nrow tbl) (rows_left s)))
        [0..<length (types_' s)]"
    by (simp add: column_of_def)
  have lens: "list_all (\<lambda>col. length col = df_nrow tbl) (df_cols tbl)"
  proof -
    from rs have "length (take (length rs) (rows_left s)) = length rs" by simp
    with nrow show ?thesis by (subst cols) (simp add: list_all_iff)
  qed
  have frame: "df_names tbl = names_' s" "df_types tbl = types_' s"
    using fr by (simp_all add: tbl df_s3_def df_resize_frame)
  have rf: "rowsFetched_' s' = rowsFetched_' s + word_of_nat (df_nrow tbl)"
    using c(4) nrow i by simp
  show ?thesis
  proof (cases "0 < n_max")
    case True
    with c(5) have m: "i = min n_max (int (rows_available s))"
      and e: "i < n_max \<longrightarrow> exhausted s'"
      by (simp_all add: n_def)
    from m nrow i True have "df_nrow tbl = min (nat n_max) (rows_available s)"
      by (cases "n_max \<le> int (rows_available s)") auto
    moreover from e nrow i have "int (df_nrow tbl) < n_max \<longrightarrow> exhausted s'" by simp
    ultimately show ?thesis using True cols lens frame rf by simp
  next
    case neg: False
    with False have "n_max < 0" by simp
    with c(5) nrow i cols lens frame rf show ?thesis by simp
  qed
qed

lemma benign_rowsFetched:
  "benign (s\<lparr>rowsFetched_' := x\<rparr>) = benign s"
  by (simp add: benign_def rows_to_bind_def split: option.splits)

lemma fetch_row_benign:
  assumes "benign s"
  shows "\<exists>found s1. fetch_row s = (Inr found, s1) \<and> benign s1"
proof -
  from assms obtain h where h: "pStatement_' s = Some h"
    by (cases "pStatement_' s") (simp_all add: benign_def)
  show ?thesis
  proof (cases "complete_' s")
    case True
    with assms show ?thesis by (auto simp: fetch_row_def)
  next
    case False
    show ?thesis
    proof (cases "pending h")
      case Nil
      with False h assms show ?thesis
        by (auto simp: fetch_row_def mysql_stmt_fetch_def MYSQL_NO_DATA_def
            MYSQL_DATA_TRUNCATED_def benign_def rows_to_bind_def)
    next
      case (Cons ev rest)
      with False h assms have "is_row ev" and "list_all is_row rest"
        by (simp_all add: benign_def)
      with Cons False h assms show ?thesis
        by (cases ev)
          (auto simp: fetch_row_def mysql_stmt_fetch_def MYSQL_NO_DATA_def
            MYSQL_DATA_TRUNCATED_def benign_def rows_to_bind_def)
    qed
  qed
qed

lemma execute_benign:
  assumes "benign s1" and "bind_next_row (bindingInput_' s1) = (True, b)"
  shows "\<exists>s2. execute (s1\<lparr>bindingInput_' := b\<rparr>) = (Inr (), s2) \<and> benign s2"
proof -
  from assms(1) obtain h where h: "pStatement_' s1 = Some h"
    by (cases "pStatement_' s1") (simp_all add: benign_def)
  from bind_next_row_True [OF assms(2)]
  have m: "rows_to_bind s1 = Suc (rows_to_bind (s1\<lparr>bindingInput_' := b\<rparr>))"
    by (auto simp: rows_to_bind_def)
  let ?m = "rows_to_bind (s1\<lparr>bindingInput_' := b\<rparr>)"
  from assms(1) h m
  have all: "\<forall>k\<in>set [0..<Suc ?m]. reply_benign (on_execute h (n_exec h + k))"
    by (simp add: benign_def list_all_iff)
  then have r0: "reply_benign (on_execute h (n_exec h))" by force
  have rest: "\<forall>k\<in>set [0..<?m]. reply_benign (on_execute h (n_exec h + Suc k))"
  proof
    fix k
    assume "k \<in> set [0..<?m]"
    then have "Suc k \<in> set [0..<Suc ?m]" by auto
    with all show "reply_benign (on_execute h (n_exec h + Suc k))" by blast
  qed
  from r0 obtain a rows where rep: "on_execute h (n_exec h) = ExecDone a rows"
    and rows: "list_all is_row rows"
    by (cases "on_execute h (n_exec h)") (simp_all add: reply_benign_def)
  from assms(1) have ui: "\<not> user_interrupt s1" by (simp add: benign_def)
  from h rep rows rest ui show ?thesis
    by (cases "pSpec_' s1")
      (simp_all add: execute_def mysql_stmt_execute_def mysql_stmt_store_result_def
        mysql_stmt_affected_rows_def benign_def list_all_iff rows_to_bind_def Let_def
        has_result_def)
qed

lemma step_benign:
  "benign s \<Longrightarrow> \<exists>ok s'. step s = (Inr ok, s') \<and> benign s'"
proof (induction s rule: step.induct)
  case (1 s)
  from fetch_row_benign [OF "1.prems"]
  obtain found s1 where fr: "fetch_row s = (Inr found, s1)" and b1: "benign s1" by blast
  show ?case
  proof (cases found)
    case True
    with fr b1 show ?thesis by (auto simp: step.simps benign_rowsFetched)
  next
    case False
    obtain nb b where nx: "bind_next_row (bindingInput_' s1) = (nb, b)"
      by (cases "bind_next_row (bindingInput_' s1)")
    show ?thesis
    proof (cases nb)
      case nbF: False
      with nx bind_next_row_False [of "bindingInput_' s1" b] have "b = bindingInput_' s1"
        by simp
      with fr False nx nbF b1 show ?thesis by (auto simp: step.simps)
    next
      case nbT: True
      with nx execute_benign [OF b1, of b]
      obtain s2 where ex: "execute (s1\<lparr>bindingInput_' := b\<rparr>) = (Inr (), s2)"
        and b2: "benign s2" by auto
      from "1.IH" [of "Inr found" s1 found nb b "Inr ()" s2 "()"] fr False nx nbT ex b2
      obtain ok s' where "step s2 = (Inr ok, s')" and "benign s'" by auto
      with fr False nx nbT ex show ?thesis by (auto simp: step.simps)
    qed
  qed
qed

lemma fetch_loop_benign:
  assumes "rows_available s = k" and "benign s"
    and "0 \<le> i" and "i \<le> n" and "0 < n" and "i + int k \<le> 1073741823"
  shows "\<exists>i' n' out' s'. fetch_loop n_max i n out s = (Inr (i', n', out'), s')"
  using assms
proof (induction k arbitrary: i n out s)
  case 0
  from step_benign [OF "0.prems"(2)]
  obtain ok s1 where st: "step s = (Inr ok, s1)" by blast
  with step_rows [OF st] "0.prems"(1) have "\<not> ok" by (cases ok) simp_all
  with st show ?case by (subst fetch_loop_unfold) simp
next
  case (Suc k)
  from step_benign [OF Suc.prems(2)]
  obtain ok s1 where st: "step s = (Inr ok, s1)" and b1: "benign s1" by blast
  show ?case
  proof (cases "n \<le> i \<and> 0 < n_max")
    case True
    then show ?thesis by (subst fetch_loop_unfold) simp
  next
    case False
    show ?thesis
    proof (cases ok)
      case ok: False
      with False st show ?thesis by (subst fetch_loop_unfold) simp
    next
      case ok: True
      with step_rows [OF st] Suc.prems(1) have k: "rows_available s1 = k" by simp
      let ?n1 = "if n \<le> i then n * 2 else n"
      let ?out1 = "copy_row s1 (if n \<le> i then df_resize out (if n \<le> i then n * 2 else n) else out) i"
      from Suc.prems have b: "0 \<le> i + 1" "i + 1 \<le> ?n1" "0 < ?n1" "i + 1 + int k \<le> 1073741823"
        by auto
      from Suc.IH [OF k b1 b, of ?out1]
      obtain i' n' out' s' where "fetch_loop n_max (i + 1) ?n1 ?out1 s1 = (Inr (i', n', out'), s')"
        by blast
      moreover from Suc.prems have "\<not> (n \<le> i \<and> INT_MAX < n * 2)"
        by (auto simp: INT_MAX_def)
      moreover from b1 have "\<not> user_interrupt s1" by (simp add: benign_def)
      ultimately show ?thesis using False st ok
        by (subst fetch_loop_unfold) simp
    qed
  qed
qed

lemma fetch_benign:
  assumes "bound_' s" and "active s" and "has_result s" and "benign s"
    and "rows_available s \<le> 1073741823"
  shows "\<exists>tbl s'. fetch n_max s = (Inr tbl, s')"
proof (cases "n_max = 0")
  case True
  with assms show ?thesis by (simp add: fetch_def)
next
  case False
  let ?n = "if n_max < 0 then 100 else n_max"
  from False have "0 < ?n" by simp
  with assms(5) fetch_loop_benign [OF refl assms(4), of 0 ?n n_max "df_create (types_' s) (names_' s) ?n"]
  obtain i' n' out' s' where
    "fetch_loop n_max 0 ?n (df_create (types_' s) (names_' s) ?n) s = (Inr (i', n', out'), s')"
    by auto
  with fetch_unfold [OF assms(1-3) False] show ?thesis by simp
qed

text \<open>
  C4: on a bound, active statement with a result set, \<open>fetch(n_max)\<close> returns a table
  when nothing in the environment fails and fewer than \<open>2^30\<close> rows are left. Whenever it
  returns a table: for \<open>n_max \<ge> 0\<close> the table has \<open>n_max\<close> rows or all the rows that
  were left, whichever is less, and it has fewer than \<open>n_max\<close> rows only if the result is
  exhausted; for a negative \<open>n_max\<close> it has all the rows that were left and the result is
  exhausted. The table holds the first of the rows left, in their order, one column per
  cached type. It is trimmed: its row count and the length of each of its columns are the
  number of rows fetched, by which the fetched-row counter has grown.
\<close>

theorem fetch_rows:
  assumes "bound_' s" and "active s" and "has_result s"
  shows "(benign s \<and> rows_available s \<le> 1073741823 \<longrightarrow>
            (\<exists>tbl s'. fetch n_max s = (Inr tbl, s'))) \<and>
         (\<forall>tbl s'. fetch n_max s = (Inr tbl, s') \<longrightarrow>
            (0 \<le> n_max \<longrightarrow>
               df_nrow tbl = min (nat n_max) (rows_available s) \<and>
               (int (df_nrow tbl) < n_max \<longrightarrow> exhausted s')) \<and>
            (n_max < 0 \<longrightarrow> df_nrow tbl = rows_available s \<and> exhausted s') \<and>
            df_cols tbl =
              map (\<lambda>j. map (\<lambda>r. cell_of (nCols_' s) r j) (take (df_nrow tbl) (rows_left s)))
                [0..<length (types_' s)] \<and>
            list_all (\<lambda>col. length col = df_nrow tbl) (df_cols tbl) \<and>
            rowsFetched_' s' = rowsFetched_' s + word_of_nat (df_nrow tbl) \<and>
            df_names tbl = names_' s \<and> df_types tbl = types_' s)"
  using fetch_benign [OF assms] fetch_rows_returned [OF assms] by blast

theorem fetch_rows_witness:
  "bound_' selected \<and> active selected \<and> has_result selected \<and> benign selected \<and>
   rows_left selected = [[Some ''1''], [Some ''2''], [None]] \<and>
   (\<exists>tbl s'. fetch 2 selected = (Inr tbl, s') \<and> df_nrow tbl = 2 \<and>
      df_cols tbl = [[Some ''1'', Some ''2'']]) \<and>
   (\<exists>tbl s'. fetch 5 selected = (Inr tbl, s') \<and> df_nrow tbl = 3 \<and> exhausted s') \<and>
   (\<exists>tbl s'. fetch (- 1) selected = (Inr tbl, s') \<and> df_nrow tbl = 3 \<and>
      df_cols tbl = [[Some ''1'', Some ''2'', None]] \<and> exhausted s' \<and> rowsFetched_' s' = 3) \<and>
   benign many_rows \<and> rows_available many_rows = 250 \<and>
   (\<exists>tbl s'. fetch (- 1) many_rows = (Inr tbl, s') \<and> df_nrow tbl = 250 \<and>
      list_all (\<lambda>col. length col = 250) (df_cols tbl) \<and> exhausted s')"
proof -
  have h: "bound_' selected" "active selected" "has_result selected"
    by (simp_all add: selected_eq active_def is_current_result_def has_result_def)
  have b: "benign selected"
    by (simp add: selected_eq benign_def rows_to_bind_def three_rows_def sample_select_def)
  have l: "rows_left selected = [[Some ''1''], [Some ''2''], [None]]"
    by (simp add: selected_eq rows_left_def current_left_def scheduled_left_def
        rows_to_bind_def three_rows_def sample_select_def)
  then have a: "rows_available selected = 3" by (simp add: rows_available_def)
  have nc: "nCols_' selected = 1" "types_' selected = [''string'']" "rowsFetched_' selected = 0"
    by (simp_all add: selected_eq)
  have hm: "bound_' many_rows" "active many_rows" "has_result many_rows"
    by (simp_all add: many_rows_eq active_def is_current_result_def has_result_def)
  have bm: "benign many_rows"
    by (simp add: many_rows_eq benign_def rows_to_bind_def sample_select_def list_all_iff)
  have am: "rows_available many_rows = 250"
    by (simp add: many_rows_eq rows_available_def rows_left_def current_left_def
        scheduled_left_def rows_to_bind_def sample_select_def)
  have f2: "\<exists>tbl s'. fetch 2 selected = (Inr tbl, s') \<and> df_nrow tbl = 2 \<and>
      df_cols tbl = [[Some ''1'', Some ''2'']]"
    using fetch_rows [OF h, of 2] a b by (auto simp: l nc cell_of_def)
  have f5: "\<exists>tbl s'. fetch 5 selected = (Inr tbl, s') \<and> df_nrow tbl = 3 \<and> exhausted s'"
    using fetch_rows [OF h, of 5] a b by auto
  have fa: "\<exists>tbl s'. fetch (- 1) selected = (Inr tbl, s') \<and> df_nrow tbl = 3 \<and>
      df_cols tbl = [[Some ''1'', Some ''2'', None]] \<and> exhausted s' \<and> rowsFetched_' s' = 3"
    using fetch_rows [OF h, of "- 1"] a b by (auto simp: l nc cell_of_def)
  have fm: "\<exists>tbl s'. fetch (- 1) many_rows = (Inr tbl, s') \<and> df_nrow tbl = 250 \<and>
      list_all (\<lambda>col. length col = 250) (df_cols tbl) \<and> exhausted s'"
    using fetch_rows [OF hm, of "- 1"] am bm by auto
  from h b l f2 f5 fa bm am fm show ?thesis by simp
qed

end
